theory Spec2Isabelle
  imports Complex_Main
begin

section \<open>The supply-chain game: data model\<close>

text \<open>
  A shallow embedding of the game logic of \<^verbatim>\<open>src/components/advanced-scm-game.tsx\<close>.

  Conventions of the embedding.
  \<^item> A JavaScript \<^verbatim>\<open>number\<close> is an exact \<open>real\<close>: the arithmetic is the ideal
    one (no binary rounding), and \<^verbatim>\<open>NaN\<close> and the infinities have no value here.
    Where the source would go on computing with \<^verbatim>\<open>NaN\<close> (an array read past its
    end), the model stops with the error \<open>NotANumber\<close>.
  \<^item> \<^verbatim>\<open>Math.round x\<close> is \<open>round x\<close> (\<open>\<lfloor>x + 1/2\<rfloor>\<close>, halves go up) and
    \<^verbatim>\<open>Math.floor\<close> is \<open>\<lfloor>_\<rfloor>\<close>.
  \<^item> An exception (\<^verbatim>\<open>throw new Error\<close>, or a \<^verbatim>\<open>TypeError\<close> on a property of
    \<^verbatim>\<open>undefined\<close>) is the left summand of \<open>error + _\<close>.
  \<^item> \<^verbatim>\<open>Math.random()\<close> is an explicit stream \<open>rnd :: nat \<Rightarrow> real\<close> with a
    counter of the draws made so far, threaded through the turn in the order the
    source draws.
  \<^item> Objects mutated in place (\<^verbatim>\<open>product\<close>, \<^verbatim>\<open>player\<close>) are list updates at their
    index of the state that is passed along. \<open>nextTurn\<close> is one run of the updater
    that the component hands to \<^verbatim>\<open>setGameState\<close>, from the previous state to the
    state it returns.
  \<^item> The record fields \<^verbatim>\<open>id\<close>, \<^verbatim>\<open>name\<close>, \<^verbatim>\<open>from\<close> and \<^verbatim>\<open>to\<close> carry the
    record's name as a prefix (\<open>id\<close> and \<open>from\<close> are taken in Isabelle); display
    names, Japanese in the source, are transliterated.
\<close>

datatype Lifecycle = Introduction | Growth | Maturity | Decline

datatype Season = Spring | Summer | Autumn | Winter

datatype Country = USA | Japan | EU | China

datatype GameMode = Easy | Normal | Hard

datatype InvestmentType = Rd | Facility

datatype error = NotFound | TypeError | NotANumber

record LifecycleFactors =
  growth :: real
  decline :: real

fun productLifecycle :: "Lifecycle \<Rightarrow> LifecycleFactors" where
  "productLifecycle Introduction = \<lparr>growth = 0.1, decline = 0.05\<rparr>"
| "productLifecycle Growth = \<lparr>growth = 0.2, decline = 0.1\<rparr>"
| "productLifecycle Maturity = \<lparr>growth = 0.05, decline = 0.05\<rparr>"
| "productLifecycle Decline = \<lparr>growth = 0, decline = 0.2\<rparr>"

subsection \<open>Global market (lines 45-59)\<close>

fun exchangeRates :: "Country \<Rightarrow> real" where
  "exchangeRates USA = 1"
| "exchangeRates Japan = 110"
| "exchangeRates EU = 0.9"
| "exchangeRates China = 1.3"

fun transportCosts :: "Country \<Rightarrow> real" where
  "transportCosts USA = 1"
| "transportCosts Japan = 1.2"
| "transportCosts EU = 1.1"
| "transportCosts China = 1.3"

definition simulateGlobalMarket :: "real \<Rightarrow> Country \<Rightarrow> int" where
  "simulateGlobalMarket baselineDemand country =
     round (baselineDemand * exchangeRates country * transportCosts country)"

subsection \<open>Suppliers (lines 62-74)\<close>

record Supplier =
  supplier_id :: int
  supplier_name :: string
  quality :: real
  cost :: real
  reliability :: real

definition suppliers :: "Supplier list" where
  "suppliers =
     [\<lparr>supplier_id = 1, supplier_name = ''Supplier A'', quality = 0.9, cost = 1.1, reliability = 0.95\<rparr>,
      \<lparr>supplier_id = 2, supplier_name = ''Supplier B'', quality = 0.8, cost = 0.9, reliability = 0.9\<rparr>,
      \<lparr>supplier_id = 3, supplier_name = ''Supplier C'', quality = 1, cost = 1.2, reliability = 0.98\<rparr>]"

subsection \<open>Environmental events (lines 77-90)\<close>

record EnvironmentalEvent =
  event_name :: string
  impact :: real

definition events :: "EnvironmentalEvent list" where
  "events =
     [\<lparr>event_name = ''natural disaster'', impact = - 0.3\<rparr>,
      \<lparr>event_name = ''political turmoil'', impact = - 0.2\<rparr>,
      \<lparr>event_name = ''technical innovation'', impact = 0.2\<rparr>,
      \<lparr>event_name = ''economic boom'', impact = 0.3\<rparr>]"

text \<open>
  \<^verbatim>\<open>Math.random() < 0.1 ? events[Math.floor(Math.random() * events.length)] : null\<close>:
  one draw, and a second one only when the first is below 0.1. An index outside the
  array reads \<^verbatim>\<open>undefined\<close>, which the turn treats like \<^verbatim>\<open>null\<close> (no event).
  The result is the event and the new count of draws.
\<close>

definition simulateEnvironmentalEvent :: "(nat \<Rightarrow> real) \<Rightarrow> nat \<Rightarrow> EnvironmentalEvent option \<times> nat" where
  "simulateEnvironmentalEvent rnd k =
     (if rnd k < 0.1
      then (let j = \<lfloor>rnd (k + 1) * real (length events)\<rfloor>
            in (if 0 \<le> j \<and> nat j < length events then Some (events ! nat j) else None, k + 2))
      else (None, k + 1))"

subsection \<open>Game state (lines 247-286)\<close>

record Player =
  budget :: real
  score :: real
  productionCapacity :: real
  revenue :: real
  expenses :: real
  holdingCost :: real
  stockoutPenalty :: real
  orderCost :: real
  rdInvestment :: real
  facilityInvestment :: real
  foreignExchangeGain :: real

record Product =
  product_id :: int
  product_name :: string
  inventory :: "real list"
  demandHistory :: "real list"
  orders :: "real list"
  lifecycle :: Lifecycle
  supplier :: int

record TradeOffer =
  offer_from :: nat
  offer_to :: nat
  amount :: real

record GameState =
  turn :: nat
  currentSeason :: Season
  seasonalFactors :: "Season \<Rightarrow> real"
  products :: "Product list"
  players :: "Player list"
  aiScore :: real
  environmentalEvent :: "EnvironmentalEvent option"
  tradeOffers :: "TradeOffer list"

text \<open>The initial state of the component (lines 293-307).\<close>

definition initialSeasonalFactors :: "Season \<Rightarrow> real" where
  "initialSeasonalFactors season =
     (case season of Spring \<Rightarrow> 1 | Summer \<Rightarrow> 1.2 | Autumn \<Rightarrow> 0.9 | Winter \<Rightarrow> 0.7)"

definition newPlayer :: Player where
  "newPlayer =
     \<lparr>budget = 1000, score = 0, productionCapacity = 100, revenue = 0, expenses = 0,
      holdingCost = 0, stockoutPenalty = 0, orderCost = 0, rdInvestment = 0,
      facilityInvestment = 0, foreignExchangeGain = 0\<rparr>"

definition initialState :: GameState where
  "initialState =
     \<lparr>turn = 1,
      currentSeason = Spring,
      seasonalFactors = initialSeasonalFactors,
      products =
        [\<lparr>product_id = 1, product_name = ''Product A'', inventory = [50], demandHistory = [],
          orders = [0], lifecycle = Introduction, supplier = 1\<rparr>,
         \<lparr>product_id = 2, product_name = ''Product B'', inventory = [50], demandHistory = [],
          orders = [0], lifecycle = Growth, supplier = 2\<rparr>],
      players = [newPlayer],
      aiScore = 0,
      environmentalEvent = None,
      tradeOffers = []\<rparr>"

section \<open>The AI player's strategy (lines 93-114)\<close>

text \<open>
  \<^verbatim>\<open>products.find\<close> returns the first product with the identity, and the function throws
  when there is none. \<^verbatim>\<open>product.inventory[0]\<close> is read before
  \<^verbatim>\<open>gameState.players[0].productionCapacity\<close>; with no player the latter throws a
  \<^verbatim>\<open>TypeError\<close>, and with a player but an empty inventory the source returns
  \<^verbatim>\<open>NaN\<close>.
\<close>

definition aiStrategy :: "GameState \<Rightarrow> int \<Rightarrow> real \<Rightarrow> error + int" where
  "aiStrategy gameState productId difficulty =
     (case find (\<lambda>p. product_id p = productId) (products gameState) of
        None \<Rightarrow> Inl NotFound
      | Some product \<Rightarrow>
          (let lastDemand = (if demandHistory product = [] then 0 else last (demandHistory product));
               averageDemand =
                 (if length (demandHistory product) > 0
                  then foldl (\<lambda>a b. a + b) 0 (demandHistory product) / real (length (demandHistory product))
                  else lastDemand);
               seasonalFactor = seasonalFactors gameState (currentSeason gameState);
               lifecycleFactor =
                 growth (productLifecycle (lifecycle product)) - decline (productLifecycle (lifecycle product));
               forecastDemand = averageDemand * seasonalFactor * (1 + lifecycleFactor);
               desiredInventory = forecastDemand * (1 + (0.2 * difficulty))
           in (case players gameState of
                 [] \<Rightarrow> Inl TypeError
               | player0 # _ \<Rightarrow>
                   (case inventory product of
                      [] \<Rightarrow> Inl NotANumber
                    | inventory0 # _ \<Rightarrow>
                        (let order0 = max 0 (desiredInventory - inventory0);
                             order1 = min (min order0 (productionCapacity player0)) (of_int \<lfloor>budget player0 / 10\<rfloor>)
                         in Inr (round order1))))))"

section \<open>Advancing a turn (lines 324-402)\<close>

text \<open>
  \<^verbatim>\<open>Array.prototype.forEach\<close> with a callback that may throw: the elements are visited
  in order, and the first exception ends the loop.
\<close>

fun forEach :: "('a \<Rightarrow> 's \<Rightarrow> error + 's) \<Rightarrow> 'a list \<Rightarrow> 's \<Rightarrow> error + 's" where
  "forEach f [] s = Inr s"
| "forEach f (x # xs) s = (case f x s of Inl e \<Rightarrow> Inl e | Inr s' \<Rightarrow> forEach f xs s')"

subsection \<open>One player slot of one product (lines 337-361)\<close>

text \<open>
  The callback of \<^verbatim>\<open>newState.players.forEach((player, index) => ...)\<close>. It mutates
  the \<^verbatim>\<open>product\<close> of the enclosing loop and the \<^verbatim>\<open>player\<close> at \<open>index\<close>, and draws
  one random number. The state it works on is the product, the array of players and
  the count of draws. \<^verbatim>\<open>suppliers.find(...)!\<close> is \<^verbatim>\<open>undefined\<close> for an unknown
  supplier, and reading its \<^verbatim>\<open>reliability\<close> throws. For a slot past the end of the
  product's \<^verbatim>\<open>inventory\<close> or \<^verbatim>\<open>orders\<close> the source computes with \<^verbatim>\<open>NaN\<close>;
  the model stops with \<open>NotANumber\<close>.
\<close>

definition playerStep ::
  "(nat \<Rightarrow> real) \<Rightarrow> real \<Rightarrow> real \<Rightarrow> real \<Rightarrow> real \<Rightarrow> nat \<Rightarrow>
   Product \<times> Player list \<times> nat \<Rightarrow> error + Product \<times> Player list \<times> nat" where
  "playerStep rnd baselineDemand seasonalFactor lifecycleFactor environmentalFactor index st =
     (case st of (product, playerArray, k) \<Rightarrow>
        (let player = playerArray ! index;
             country = [USA, Japan, EU, China] ! (index mod 4);
             globalDemand = simulateGlobalMarket baselineDemand country;
             demand = round (real_of_int globalDemand * seasonalFactor * (1 + lifecycleFactor) * environmentalFactor)
         in (case find (\<lambda>s. supplier_id s = supplier product) suppliers of
               None \<Rightarrow> Inl TypeError
             | Some supplier0 \<Rightarrow>
                 if index < length (inventory product) \<and> index < length (orders product)
                 then
                   (let newInventory =
                          max 0 (inventory product ! index + orders product ! index * reliability supplier0
                                 - real_of_int demand);
                        revenue0 = min (real_of_int demand) (inventory product ! index) * 20 * quality supplier0;
                        holdingCost0 = newInventory * 0.5;
                        stockoutPenalty0 = max 0 (real_of_int demand - inventory product ! index) * 2;
                        orderCost0 = orders product ! index * 10 * cost supplier0
                    in Inr
                         (product
                            \<lparr>demandHistory := demandHistory product @ [real_of_int demand],
                             inventory := (inventory product)[index := newInventory],
                             orders := (orders product)[index := 0]\<rparr>,
                          playerArray[index := player
                            \<lparr>budget := min (budget player - orderCost0 + revenue0) 2000,
                             revenue := revenue player + revenue0,
                             expenses := expenses player + (holdingCost0 + stockoutPenalty0 + orderCost0),
                             holdingCost := holdingCost player + holdingCost0,
                             stockoutPenalty := stockoutPenalty player + stockoutPenalty0,
                             orderCost := orderCost player + orderCost0,
                             score := score player + (revenue0 - holdingCost0 - stockoutPenalty0 - orderCost0),
                             foreignExchangeGain :=
                               foreignExchangeGain player + revenue0 * (rnd k * 0.1 - 0.05)\<rparr>],
                          k + 1))
                 else Inl NotANumber)))"

subsection \<open>Lifecycle update (lines 363-368)\<close>

fun indexOf :: "'a list \<Rightarrow> 'a \<Rightarrow> int" where
  "indexOf [] x = - 1"
| "indexOf (y # ys) x = (if y = x then 0 else (let r = indexOf ys x in if r < 0 then r else r + 1))"

definition lifecycleUpdate :: "(nat \<Rightarrow> real) \<Rightarrow> Product \<times> nat \<Rightarrow> Product \<times> nat" where
  "lifecycleUpdate rnd st =
     (case st of (product, k) \<Rightarrow>
        if rnd k < 0.1
        then (let lifecycles = [Introduction, Growth, Maturity, Decline];
                  currentIndex = indexOf lifecycles (lifecycle product)
              in (product\<lparr>lifecycle := lifecycles ! nat (min (currentIndex + 1) (int (length lifecycles) - 1))\<rparr>,
                  k + 1))
        else (product, k + 1))"

subsection \<open>The AI player (lines 370-378)\<close>

definition difficulty :: "GameMode \<Rightarrow> real" where
  "difficulty gameMode = (if gameMode = Hard then 2 else if gameMode = Normal then 1 else 0.5)"

text \<open>
  \<open>product\<close> is the product of the enclosing loop, already written back into
  \<open>newState\<close>. Only \<open>aiScore\<close> is assigned. With an empty history or inventory
  the source adds \<^verbatim>\<open>NaN\<close>; the model stops with \<open>NotANumber\<close>.
\<close>

definition aiPlayer :: "GameMode \<Rightarrow> Product \<Rightarrow> GameState \<Rightarrow> error + GameState" where
  "aiPlayer gameMode product newState =
     (case aiStrategy newState (product_id product) (difficulty gameMode) of
        Inl e \<Rightarrow> Inl e
      | Inr aiOrder \<Rightarrow>
          if demandHistory product = [] \<or> inventory product = []
          then Inl NotANumber
          else
            (let aiInventory =
                   max 0 (inventory product ! 0 + real_of_int aiOrder - last (demandHistory product));
                 aiRevenue = min (last (demandHistory product)) (inventory product ! 0) * 20;
                 aiHoldingCost = aiInventory * 0.5;
                 aiStockoutPenalty = max 0 (last (demandHistory product) - inventory product ! 0) * 2;
                 aiOrderCost = real_of_int aiOrder * 10
             in Inr (newState
                  \<lparr>aiScore := aiScore newState + (aiRevenue - aiHoldingCost - aiStockoutPenalty - aiOrderCost)\<rparr>)))"

subsection \<open>One product (lines 331-379)\<close>

text \<open>
  The callback of \<^verbatim>\<open>newState.products.forEach(product => ...)\<close>, for the product at
  position \<open>pidx\<close> of the array.
\<close>

definition productStep :: "GameMode \<Rightarrow> (nat \<Rightarrow> real) \<Rightarrow> nat \<Rightarrow> GameState \<times> nat \<Rightarrow> error + GameState \<times> nat" where
  "productStep gameMode rnd pidx st =
     (case st of (newState, k) \<Rightarrow>
        (let product = products newState ! pidx;
             baselineDemand = 20;
             seasonalFactor = seasonalFactors newState (currentSeason newState);
             lifecycleFactor =
               growth (productLifecycle (lifecycle product)) - decline (productLifecycle (lifecycle product));
             environmentalFactor =
               (case environmentalEvent newState of Some ev \<Rightarrow> 1 + impact ev | None \<Rightarrow> 1)
         in (case forEach (playerStep rnd baselineDemand seasonalFactor lifecycleFactor environmentalFactor)
                    [0..<length (players newState)] (product, players newState, k) of
               Inl e \<Rightarrow> Inl e
             | Inr (product1, players1, k1) \<Rightarrow>
                 (case lifecycleUpdate rnd (product1, k1) of (product2, k2) \<Rightarrow>
                    (case aiPlayer gameMode product2
                            (newState\<lparr>products := (products newState)[pidx := product2], players := players1\<rparr>) of
                       Inl e \<Rightarrow> Inl e
                     | Inr newState2 \<Rightarrow> Inr (newState2, k2))))))"

subsection \<open>Investments (lines 382-388) and trade (lines 391-398)\<close>

definition applyInvestments :: "GameState \<Rightarrow> GameState" where
  "applyInvestments newState =
     newState\<lparr>players :=
       map (\<lambda>player. player
              \<lparr>productionCapacity := productionCapacity player + real_of_int \<lfloor>facilityInvestment player / 100\<rfloor>,
               budget := budget player - (rdInvestment player + facilityInvestment player),
               expenses := expenses player + (rdInvestment player + facilityInvestment player),
               rdInvestment := 0,
               facilityInvestment := 0\<rparr>)
           (players newState)\<rparr>"

text \<open>
  \<^verbatim>\<open>newState.players[from]\<close> is \<^verbatim>\<open>undefined\<close> for an index past the array, and reading
  or writing its \<^verbatim>\<open>budget\<close> throws; the recipient is only touched after the payer has
  been debited.
\<close>

definition tradeStep :: "TradeOffer \<Rightarrow> GameState \<Rightarrow> error + GameState" where
  "tradeStep offer newState =
     (if length (players newState) \<le> offer_from offer then Inl TypeError
      else if budget (players newState ! offer_from offer) \<ge> amount offer
      then
        (let players1 = (players newState)[offer_from offer :=
                 (players newState ! offer_from offer)
                   \<lparr>budget := budget (players newState ! offer_from offer) - amount offer\<rparr>]
         in if length players1 \<le> offer_to offer then Inl TypeError
            else Inr (newState\<lparr>players := players1[offer_to offer :=
                   (players1 ! offer_to offer)\<lparr>budget := budget (players1 ! offer_to offer) + amount offer\<rparr>]\<rparr>))
      else Inr newState)"

definition settleTrades :: "GameState \<Rightarrow> error + GameState" where
  "settleTrades newState =
     (case forEach tradeStep (tradeOffers newState) newState of
        Inl e \<Rightarrow> Inl e
      | Inr newState1 \<Rightarrow> Inr (newState1\<lparr>tradeOffers := []\<rparr>))"

subsection \<open>The turn\<close>

text \<open>
  Lines 326-329: the turn counter, the season of the new turn and the event of the
  turn; the draws start at 0.
\<close>

definition startTurn :: "(nat \<Rightarrow> real) \<Rightarrow> GameState \<Rightarrow> GameState \<times> nat" where
  "startTurn rnd prevState =
     (let newState = prevState\<lparr>turn := turn prevState + 1\<rparr>;
          newState1 = newState\<lparr>currentSeason := [Spring, Summer, Autumn, Winter] ! (turn newState mod 4)\<rparr>
      in (case simulateEnvironmentalEvent rnd 0 of
            (ev, k) \<Rightarrow> (newState1\<lparr>environmentalEvent := ev\<rparr>, k)))"

definition processProducts :: "GameMode \<Rightarrow> (nat \<Rightarrow> real) \<Rightarrow> GameState \<times> nat \<Rightarrow> error + GameState \<times> nat" where
  "processProducts gameMode rnd st =
     forEach (productStep gameMode rnd) [0..<length (products (fst st))] st"

definition nextTurn :: "GameMode \<Rightarrow> (nat \<Rightarrow> real) \<Rightarrow> GameState \<Rightarrow> error + GameState" where
  "nextTurn gameMode rnd prevState =
     (case processProducts gameMode rnd (startTurn rnd prevState) of
        Inl e \<Rightarrow> Inl e
      | Inr (newState, k) \<Rightarrow> settleTrades (applyInvestments newState))"

section \<open>Decisions between turns (lines 404-487)\<close>

text \<open>
  \<^verbatim>\<open>updateGameState\<close> applies the update and copies the products and players; on
  values the copy is the identity.
\<close>

definition handleOrderChange :: "nat \<Rightarrow> int \<Rightarrow> real \<Rightarrow> GameState \<Rightarrow> GameState" where
  "handleOrderChange playerId productId val prevState =
     prevState\<lparr>products :=
       map (\<lambda>product.
              if product_id product = productId
              then product\<lparr>orders :=
                     map (\<lambda>(index, order0). if index = playerId then val else order0)
                         (enumerate 0 (orders product))\<rparr>
              else product)
           (products prevState)\<rparr>"

definition handleInvestmentChange :: "nat \<Rightarrow> InvestmentType \<Rightarrow> real \<Rightarrow> GameState \<Rightarrow> GameState" where
  "handleInvestmentChange playerId type0 val prevState =
     prevState\<lparr>players :=
       map (\<lambda>(index, player).
              if index = playerId
              then (if type0 = Rd then player\<lparr>rdInvestment := val\<rparr>
                    else player\<lparr>facilityInvestment := val\<rparr>)
              else player)
           (enumerate 0 (players prevState))\<rparr>"

definition handleSupplierChange :: "nat \<Rightarrow> int \<Rightarrow> int \<Rightarrow> GameState \<Rightarrow> GameState" where
  "handleSupplierChange playerId productId supplierId prevState =
     prevState\<lparr>products :=
       map (\<lambda>product. if product_id product = productId then product\<lparr>supplier := supplierId\<rparr> else product)
           (products prevState)\<rparr>"

definition handleTradeOffer :: "nat \<Rightarrow> nat \<Rightarrow> GameState \<Rightarrow> GameState" where
  "handleTradeOffer from0 to0 prevState =
     prevState\<lparr>tradeOffers :=
       tradeOffers prevState @ [\<lparr>offer_from = from0, offer_to = to0, amount = 100\<rparr>]\<rparr>"

text \<open>The effect on \<^verbatim>\<open>playerCount\<close> (lines 455-487): players are added or cut off at the end.\<close>

definition setPlayerCount :: "nat \<Rightarrow> GameState \<Rightarrow> GameState" where
  "setPlayerCount playerCount prevState =
     (let playerDiff = int playerCount - int (length (players prevState))
      in if playerDiff > 0
         then prevState
           \<lparr>players := players prevState @ replicate (nat playerDiff) newPlayer,
            products :=
              map (\<lambda>product. product
                     \<lparr>inventory := inventory product @ replicate (nat playerDiff) 50,
                      orders := orders product @ replicate (nat playerDiff) 0\<rparr>)
                  (products prevState)\<rparr>
         else if playerDiff < 0
         then prevState
           \<lparr>players := take playerCount (players prevState),
            products :=
              map (\<lambda>product. product
                     \<lparr>inventory := take playerCount (inventory product),
                      orders := take playerCount (orders product)\<rparr>)
                  (products prevState)\<rparr>
         else prevState)"

section \<open>The step formulas in the words of the specification\<close>

text \<open>
  The specification's turn processor, steps 2(a) to 2(f), as functions of one product's
  and one slot's values. The theorems below compare the loops of the source with
  them.
\<close>

definition spec_demand :: "real \<Rightarrow> real \<Rightarrow> real \<Rightarrow> nat \<Rightarrow> real" where
  "spec_demand seasonalFactor lifecycleFactor environmentalFactor slot =
     real_of_int (round (real_of_int (simulateGlobalMarket 20 ([USA, Japan, EU, China] ! (slot mod 4)))
                         * seasonalFactor * (1 + lifecycleFactor) * environmentalFactor))"

definition spec_newInventory :: "Supplier \<Rightarrow> real \<Rightarrow> real \<Rightarrow> real \<Rightarrow> real" where
  "spec_newInventory supp demand stock qty = max 0 (stock + qty * reliability supp - demand)"

definition spec_revenue :: "Supplier \<Rightarrow> real \<Rightarrow> real \<Rightarrow> real" where
  "spec_revenue supp demand stock = min demand stock * 20 * quality supp"

definition spec_holdingCost :: "Supplier \<Rightarrow> real \<Rightarrow> real \<Rightarrow> real \<Rightarrow> real" where
  "spec_holdingCost supp demand stock qty = spec_newInventory supp demand stock qty * 0.5"

definition spec_stockoutPenalty :: "real \<Rightarrow> real \<Rightarrow> real" where
  "spec_stockoutPenalty demand stock = max 0 (demand - stock) * 2"

definition spec_orderCost :: "Supplier \<Rightarrow> real \<Rightarrow> real" where
  "spec_orderCost supp qty = qty * 10 * cost supp"

text \<open>Step 2(f): the ledger of one player after one product; \<open>u\<close> is the random draw.\<close>

definition spec_ledger :: "Supplier \<Rightarrow> real \<Rightarrow> real \<Rightarrow> real \<Rightarrow> real \<Rightarrow> Player \<Rightarrow> Player" where
  "spec_ledger supp demand stock qty u player =
     player
       \<lparr>budget := min (budget player - spec_orderCost supp qty + spec_revenue supp demand stock) 2000,
        revenue := revenue player + spec_revenue supp demand stock,
        expenses := expenses player
          + (spec_holdingCost supp demand stock qty + spec_stockoutPenalty demand stock + spec_orderCost supp qty),
        holdingCost := holdingCost player + spec_holdingCost supp demand stock qty,
        stockoutPenalty := stockoutPenalty player + spec_stockoutPenalty demand stock,
        orderCost := orderCost player + spec_orderCost supp qty,
        score := score player
          + (spec_revenue supp demand stock - spec_holdingCost supp demand stock qty
             - spec_stockoutPenalty demand stock - spec_orderCost supp qty),
        foreignExchangeGain := foreignExchangeGain player + spec_revenue supp demand stock * (u * 0.1 - 0.05)\<rparr>"

text \<open>The factors of the turn that starts from a state, and the demand realised in it.\<close>

definition lifecycleFactorOf :: "Product \<Rightarrow> real" where
  "lifecycleFactorOf product =
     growth (productLifecycle (lifecycle product)) - decline (productLifecycle (lifecycle product))"

definition environmentalFactorOf :: "GameState \<Rightarrow> real" where
  "environmentalFactorOf s = (case environmentalEvent s of Some ev \<Rightarrow> 1 + impact ev | None \<Rightarrow> 1)"

definition realizedDemand :: "(nat \<Rightarrow> real) \<Rightarrow> GameState \<Rightarrow> nat \<Rightarrow> nat \<Rightarrow> real" where
  "realizedDemand rnd s pidx slot =
     (let s0 = fst (startTurn rnd s)
      in spec_demand (seasonalFactors s0 (currentSeason s0)) (lifecycleFactorOf (products s ! pidx))
           (environmentalFactorOf s0) slot)"

text \<open>
  The forecast and the order of the AI policy in the words of the specification
  (sections 4.5 and 4.6): the mean of the history, 0 for an empty one.
\<close>

definition spec_mean :: "real list \<Rightarrow> real" where
  "spec_mean xs = (if xs = [] then 0 else sum_list xs / real (length xs))"

definition spec_forecast :: "GameState \<Rightarrow> Product \<Rightarrow> real" where
  "spec_forecast gameState product =
     spec_mean (demandHistory product) * seasonalFactors gameState (currentSeason gameState)
     * (1 + growth (productLifecycle (lifecycle product)) - decline (productLifecycle (lifecycle product)))"

definition spec_aiOrder :: "GameState \<Rightarrow> Product \<Rightarrow> real \<Rightarrow> int" where
  "spec_aiOrder gameState product d =
     round (Min {max 0 (spec_forecast gameState product * (1 + 0.2 * d) - inventory product ! 0),
                 productionCapacity (players gameState ! 0),
                 real_of_int \<lfloor>budget (players gameState ! 0) / 10\<rfloor>})"

text \<open>
  What the loop over the player slots leaves of a product and of the players, slot by
  slot, by the formulas above; \<open>k\<close> is the count of random draws before the loop.
\<close>

definition slotsProduct :: "Supplier \<Rightarrow> real \<Rightarrow> real \<Rightarrow> real \<Rightarrow> nat \<Rightarrow> Product \<Rightarrow> Product" where
  "slotsProduct supp sf lf ef n product =
     product
       \<lparr>demandHistory := demandHistory product @ map (spec_demand sf lf ef) [0..<n],
        inventory :=
          map (\<lambda>i. spec_newInventory supp (spec_demand sf lf ef i) (inventory product ! i) (orders product ! i))
              [0..<n]
          @ drop n (inventory product),
        orders := map (\<lambda>i. 0) [0..<n] @ drop n (orders product)\<rparr>"

definition slotsPlayers ::
  "Supplier \<Rightarrow> real \<Rightarrow> real \<Rightarrow> real \<Rightarrow> (nat \<Rightarrow> real) \<Rightarrow> nat \<Rightarrow> Product \<Rightarrow> Player list \<Rightarrow> Player list" where
  "slotsPlayers supp sf lf ef rnd k product ps =
     map (\<lambda>i. spec_ledger supp (spec_demand sf lf ef i) (inventory product ! i) (orders product ! i)
                 (rnd (k + i)) (ps ! i))
         [0..<length ps]"

text \<open>
  The net amount of the AI block (lines 372-378) from the stock and the demand it reads
  and the order of the policy; and the net amount of the specification's steps (c) to
  (e) with the multipliers of a supplier.
\<close>

definition aiNet :: "real \<Rightarrow> real \<Rightarrow> int \<Rightarrow> real" where
  "aiNet stock demand aiOrder =
     min demand stock * 20 - max 0 (stock + real_of_int aiOrder - demand) * 0.5
     - max 0 (demand - stock) * 2 - real_of_int aiOrder * 10"

definition spec_shadowNet :: "Supplier \<Rightarrow> real \<Rightarrow> real \<Rightarrow> int \<Rightarrow> real" where
  "spec_shadowNet supp stock demand aiOrder =
     spec_revenue supp demand stock - spec_holdingCost supp demand stock (real_of_int aiOrder)
     - spec_stockoutPenalty demand stock - spec_orderCost supp (real_of_int aiOrder)"

text \<open>What a step of the loop over the products leaves alone.\<close>

definition productFrame :: "GameState \<Rightarrow> GameState \<Rightarrow> bool" where
  "productFrame s s' \<longleftrightarrow>
     length (products s') = length (products s) \<and> length (players s') = length (players s)
     \<and> turn s' = turn s \<and> currentSeason s' = currentSeason s \<and> seasonalFactors s' = seasonalFactors s
     \<and> environmentalEvent s' = environmentalEvent s \<and> tradeOffers s' = tradeOffers s
     \<and> map rdInvestment (players s') = map rdInvestment (players s)
     \<and> map facilityInvestment (players s') = map facilityInvestment (players s)"

text \<open>
  Trade settlement in the words of the specification (step 6), on the list of the
  budgets: the offers in queue order, each one applied when the payer's budget at that
  point covers the amount and dropped otherwise.
\<close>

fun spec_settle :: "TradeOffer list \<Rightarrow> real list \<Rightarrow> real list" where
  "spec_settle [] budgets = budgets"
| "spec_settle (offer # queue) budgets =
     spec_settle queue
       (if amount offer \<le> budgets ! offer_from offer
        then (let debited = budgets[offer_from offer := budgets ! offer_from offer - amount offer]
              in debited[offer_to offer := debited ! offer_to offer + amount offer])
        else budgets)"

text \<open>
  Two arrays of players that differ in the budgets only: they agree once every budget is
  blanked.
\<close>

definition budgetsOnly :: "Player list \<Rightarrow> Player list \<Rightarrow> bool" where
  "budgetsOnly ps qs \<longleftrightarrow> map (\<lambda>p. p\<lparr>budget := 0\<rparr>) qs = map (\<lambda>p. p\<lparr>budget := 0\<rparr>) ps"

text \<open>
  The ledger contract of the specification (section 4.8): the score a player's
  accumulators stand for, and the operating costs among the expenses.
\<close>

definition ledgerScore :: "Player \<Rightarrow> real" where
  "ledgerScore p = revenue p - holdingCost p - stockoutPenalty p - orderCost p"

definition ledgerOperatingCost :: "Player \<Rightarrow> real" where
  "ledgerOperatingCost p = holdingCost p + stockoutPenalty p + orderCost p"

text \<open>
  The states reachable from the initial state by decisions and turns. The second
  argument is a ghost: for every player slot, the sum of the R&D and facility
  investments that the turns so far have applied to the slot's current player (a new
  player starts at 0, a removed one is forgotten).
\<close>

inductive reachable :: "GameState \<Rightarrow> real list \<Rightarrow> bool" where
  initial: "reachable initialState [0]"
| orderChange: "reachable s applied \<Longrightarrow> reachable (handleOrderChange playerId productId val s) applied"
| investmentChange:
    "reachable s applied \<Longrightarrow> reachable (handleInvestmentChange playerId type0 val s) applied"
| supplierChange:
    "reachable s applied \<Longrightarrow> reachable (handleSupplierChange playerId productId supplierId s) applied"
| tradeOffer: "reachable s applied \<Longrightarrow> reachable (handleTradeOffer from0 to0 s) applied"
| playerCount:
    "reachable s applied \<Longrightarrow>
     reachable (setPlayerCount n s) (take n applied @ replicate (n - length applied) 0)"
| turn:
    "reachable s applied \<Longrightarrow> nextTurn gameMode rnd s = Inr s' \<Longrightarrow>
     reachable s' (map2 (\<lambda>p x. x + (rdInvestment p + facilityInvestment p)) (players s) applied)"

text \<open>The ledger contract for every player slot of a state, with the ghost.\<close>

definition ledgerInvariant :: "GameState \<Rightarrow> real list \<Rightarrow> bool" where
  "ledgerInvariant s applied \<longleftrightarrow>
     length applied = length (players s)
     \<and> (\<forall>i < length (players s).
           score (players s ! i) = ledgerScore (players s ! i)
           \<and> expenses (players s ! i) = ledgerOperatingCost (players s ! i) + applied ! i)"

text \<open>
  The invariant of the specification's data model (section 3): there is a player, every
  product has one inventory entry and one order entry per player and a supplier of the
  catalogue, and every queued trade offer names two player slots.
\<close>

definition wellFormed :: "GameState \<Rightarrow> bool" where
  "wellFormed s \<longleftrightarrow>
     players s \<noteq> []
     \<and> (\<forall>p \<in> set (products s).
           length (inventory p) = length (players s) \<and> length (orders p) = length (players s)
           \<and> find (\<lambda>x. supplier_id x = supplier p) suppliers \<noteq> None)
     \<and> (\<forall>offer \<in> set (tradeOffers s).
           offer_from offer < length (players s) \<and> offer_to offer < length (players s))"

text \<open>The part of well-formedness that the loop over the products needs and keeps.\<close>

definition slotsAligned :: "GameState \<Rightarrow> bool" where
  "slotsAligned s \<longleftrightarrow>
     players s \<noteq> []
     \<and> (\<forall>p \<in> set (products s).
           length (inventory p) = length (players s) \<and> length (orders p) = length (players s)
           \<and> find (\<lambda>x. supplier_id x = supplier p) suppliers \<noteq> None)"

section \<open>The turn as a fold over the products\<close>

text \<open>
  The state of a turn after its first \<open>j\<close> products, with the count of random draws:
  the loop of \<open>processProducts\<close> cut off after \<open>j\<close> steps.
\<close>

definition turnPrefix :: "GameMode \<Rightarrow> (nat \<Rightarrow> real) \<Rightarrow> GameState \<Rightarrow> nat \<Rightarrow> error + GameState \<times> nat" where
  "turnPrefix gameMode rnd s j = forEach (productStep gameMode rnd) [0..<j] (startTurn rnd s)"

text \<open>
  The amounts of the specification's steps 2(b) to 2(e) for product \<open>j\<close> and a player
  slot, from the state before the turn: its inventory and pending order, the demand
  realised in the turn, and the supplier \<open>supps ! j\<close> of the product.
\<close>

definition stepInventory :: "Supplier list \<Rightarrow> (nat \<Rightarrow> real) \<Rightarrow> GameState \<Rightarrow> nat \<Rightarrow> nat \<Rightarrow> real" where
  "stepInventory supps rnd s slot j =
     spec_newInventory (supps ! j) (realizedDemand rnd s j slot) (inventory (products s ! j) ! slot)
       (orders (products s ! j) ! slot)"

definition stepRevenue :: "Supplier list \<Rightarrow> (nat \<Rightarrow> real) \<Rightarrow> GameState \<Rightarrow> nat \<Rightarrow> nat \<Rightarrow> real" where
  "stepRevenue supps rnd s slot j =
     spec_revenue (supps ! j) (realizedDemand rnd s j slot) (inventory (products s ! j) ! slot)"

definition stepHoldingCost :: "Supplier list \<Rightarrow> (nat \<Rightarrow> real) \<Rightarrow> GameState \<Rightarrow> nat \<Rightarrow> nat \<Rightarrow> real" where
  "stepHoldingCost supps rnd s slot j =
     spec_holdingCost (supps ! j) (realizedDemand rnd s j slot) (inventory (products s ! j) ! slot)
       (orders (products s ! j) ! slot)"

definition stepStockoutPenalty :: "(nat \<Rightarrow> real) \<Rightarrow> GameState \<Rightarrow> nat \<Rightarrow> nat \<Rightarrow> real" where
  "stepStockoutPenalty rnd s slot j =
     spec_stockoutPenalty (realizedDemand rnd s j slot) (inventory (products s ! j) ! slot)"

definition stepOrderCost :: "Supplier list \<Rightarrow> GameState \<Rightarrow> nat \<Rightarrow> nat \<Rightarrow> real" where
  "stepOrderCost supps s slot j = spec_orderCost (supps ! j) (orders (products s ! j) ! slot)"

section \<open>The states that the controls reach\<close>

text \<open>
  The states reached from the initial one by the decisions as the controls offer them
  and by turns that return: the supplier of a product is chosen from the catalogue
  (lines 206-207) and the player count is at least 1 (the menu offers 1 to 4, lines
  519-522); orders, investments and trade offers are taken as they come.
\<close>

inductive uiReachable :: "GameState \<Rightarrow> bool" where
  initial: "uiReachable initialState"
| orderChange: "uiReachable s \<Longrightarrow> uiReachable (handleOrderChange playerId productId val s)"
| investmentChange: "uiReachable s \<Longrightarrow> uiReachable (handleInvestmentChange playerId type0 val s)"
| supplierChange:
    "uiReachable s \<Longrightarrow> supplierId \<in> supplier_id ` set suppliers \<Longrightarrow>
     uiReachable (handleSupplierChange playerId productId supplierId s)"
| tradeOffer: "uiReachable s \<Longrightarrow> uiReachable (handleTradeOffer from0 to0 s)"
| playerCount: "uiReachable s \<Longrightarrow> 0 < n \<Longrightarrow> uiReachable (setPlayerCount n s)"
| turn: "uiReachable s \<Longrightarrow> nextTurn gameMode rnd s = Inr s' \<Longrightarrow> uiReachable s'"

section \<open>States and random draws of the examples\<close>

text \<open>
  Random draws that are all 0.5 (no event, no lifecycle step, no exchange gain), and the
  initial state with an order of 200 units of product 1 by player 0.
\<close>

definition rnd0 :: "nat \<Rightarrow> real" where
  "rnd0 k = 0.5"

definition bigOrderState :: GameState where
  "bigOrderState = handleOrderChange 0 1 200 initialState"

text \<open>
  States reached from the initial state by decisions: an order of 10 units of product 1
  by player 0; an order of 10 units of product 2 and an R&D investment of 100 by player
  0; two players; two players and a trade offer from player 0 to player 1.
\<close>

definition orderedState :: GameState where
  "orderedState = handleOrderChange 0 1 10 initialState"

definition secondOrderState :: GameState where
  "secondOrderState = handleInvestmentChange 0 Rd 100 (handleOrderChange 0 2 10 initialState)"

definition twoPlayerState :: GameState where
  "twoPlayerState = setPlayerCount 2 initialState"

definition tradeState :: GameState where
  "tradeState = handleTradeOffer 0 1 (setPlayerCount 2 initialState)"

text \<open>
  Three players, the second with a budget of 50, and the offers 0 to 1 and 1 to 2 of 100
  each; and the states reached from the initial one by setting three players, an R&D
  investment of 1950 by player 1 and the two offers, in either order.
\<close>

definition chainOffers :: "TradeOffer list" where
  "chainOffers = [\<lparr>offer_from = 0, offer_to = 1, amount = 100\<rparr>, \<lparr>offer_from = 1, offer_to = 2, amount = 100\<rparr>]"

definition chainSettleState :: GameState where
  "chainSettleState =
     initialState\<lparr>players := [newPlayer, newPlayer\<lparr>budget := 50\<rparr>, newPlayer], tradeOffers := chainOffers\<rparr>"

definition chainState :: GameState where
  "chainState =
     handleTradeOffer 1 2 (handleTradeOffer 0 1 (handleInvestmentChange 1 Rd 1950 (setPlayerCount 3 initialState)))"

definition chainStateReversed :: GameState where
  "chainStateReversed =
     handleTradeOffer 0 1 (handleTradeOffer 1 2 (handleInvestmentChange 1 Rd 1950 (setPlayerCount 3 initialState)))"

text \<open>The state after an R&D investment of 100 by player 0.\<close>

definition investedState :: GameState where
  "investedState = handleInvestmentChange 0 Rd 100 initialState"

text \<open>
  Two players, an offer from player 1 to player 0, and the player count set back to 1:
  the offer stays queued and names a slot that no longer exists.
\<close>

definition danglingOfferState :: GameState where
  "danglingOfferState = setPlayerCount 1 (handleTradeOffer 1 0 (setPlayerCount 2 initialState))"

text \<open>
  Two players, an order of 200 units of product 1 by player 0 and a trade offer from
  player 0 to player 1: after the ledger steps of the turn player 0 cannot pay.
\<close>

definition droppedOfferState :: GameState where
  "droppedOfferState = handleTradeOffer 0 1 (handleOrderChange 0 1 200 (setPlayerCount 2 initialState))"

text \<open>The state after the first turn of a game with one player and no decisions.\<close>

definition secondTurnState :: GameState where
  "secondTurnState = (case nextTurn Normal rnd0 initialState of Inl e \<Rightarrow> initialState | Inr s \<Rightarrow> s)"

section \<open>Loops\<close>

lemma forEach_append:
  "forEach f (xs @ ys) s = (case forEach f xs s of Inl e \<Rightarrow> Inl e | Inr s' \<Rightarrow> forEach f ys s')"
  by (induction xs arbitrary: s) (auto split: sum.splits)

lemma forEach_append_Inr:
  "forEach f (xs @ ys) s = Inr s' \<longleftrightarrow> (\<exists>s1. forEach f xs s = Inr s1 \<and> forEach f ys s1 = Inr s')"
  by (simp add: forEach_append split: sum.splits)

lemma forEach_single: "forEach f [x] s = f x s"
  by (cases "f x s") simp_all

lemma forEach_snoc_Inr:
  "forEach f (xs @ [x]) s = Inr s' \<longleftrightarrow> (\<exists>s1. forEach f xs s = Inr s1 \<and> f x s1 = Inr s')"
  unfolding forEach_append_Inr forEach_single ..

lemma forEach_invariant:
  assumes "forEach f xs s = Inr s'" and "P s"
    and "\<And>x a b. x \<in> set xs \<Longrightarrow> P a \<Longrightarrow> f x a = Inr b \<Longrightarrow> P b"
  shows "P s'"
  using assms
proof (induction xs arbitrary: s)
  case Nil
  then show ?case by simp
next
  case (Cons x xs)
  from Cons.prems(1) obtain s1 where s1: "f x s = Inr s1" and rest: "forEach f xs s1 = Inr s'"
    by (auto split: sum.splits)
  have "P s1" using Cons.prems(2,3) s1 by auto
  with rest Cons.IH Cons.prems(3) show ?case by auto
qed

lemma update_prefix_map:
  "m < length xs \<Longrightarrow> (map f [0..<m] @ drop m xs)[m := f m] = map f [0..<Suc m] @ drop (Suc m) xs"
  by (simp add: list_update_append Cons_nth_drop_Suc[symmetric])

text \<open>One slot, written with the formulas of the specification.\<close>

lemma playerStep_Some:
  assumes "find (\<lambda>s. supplier_id s = supplier product) suppliers = Some supp"
    and "index < length (inventory product)" and "index < length (orders product)"
  shows "playerStep rnd 20 sf lf ef index (product, ps, k) =
     Inr (product\<lparr>demandHistory := demandHistory product @ [spec_demand sf lf ef index],
                  inventory := (inventory product)[index :=
                     spec_newInventory supp (spec_demand sf lf ef index) (inventory product ! index) (orders product ! index)],
                  orders := (orders product)[index := 0]\<rparr>,
          ps[index := spec_ledger supp (spec_demand sf lf ef index) (inventory product ! index)
                        (orders product ! index) (rnd k) (ps ! index)],
          k + 1)"
  using assms
  by (simp add: playerStep_def Let_def spec_demand_def spec_newInventory_def spec_ledger_def
      spec_revenue_def spec_holdingCost_def spec_stockoutPenalty_def spec_orderCost_def)

lemma playerStep_Inr_D:
  assumes "playerStep rnd b sf lf ef index (product, ps, k) = Inr st'"
  shows "(\<exists>supp. find (\<lambda>s. supplier_id s = supplier product) suppliers = Some supp)
         \<and> index < length (inventory product) \<and> index < length (orders product)"
  using assms
  by (auto simp add: playerStep_def Let_def split: option.splits if_splits)


lemma playerStep_frame:
  assumes "playerStep rnd b sf lf ef index (product, ps, k) = Inr (product', ps', k')"
  shows "supplier product' = supplier product \<and> length (inventory product') = length (inventory product)
         \<and> length (orders product') = length (orders product) \<and> length ps' = length ps
         \<and> lifecycle product' = lifecycle product \<and> product_id product' = product_id product"
  using assms
  by (auto simp add: playerStep_def Let_def split: option.splits if_splits)

lemma playersLoop_closed:
  assumes "find (\<lambda>s. supplier_id s = supplier product) suppliers = Some supp"
    and "m \<le> length (inventory product)" and "m \<le> length (orders product)" and "m \<le> length ps"
  shows "forEach (playerStep rnd 20 sf lf ef) [0..<m] (product, ps, k) =
      Inr (product\<lparr>demandHistory := demandHistory product @ map (spec_demand sf lf ef) [0..<m],
                   inventory := map (\<lambda>i. spec_newInventory supp (spec_demand sf lf ef i)
                                          (inventory product ! i) (orders product ! i)) [0..<m]
                                @ drop m (inventory product),
                   orders := map (\<lambda>i. 0) [0..<m] @ drop m (orders product)\<rparr>,
           map (\<lambda>i. spec_ledger supp (spec_demand sf lf ef i) (inventory product ! i)
                       (orders product ! i) (rnd (k + i)) (ps ! i)) [0..<m] @ drop m ps,
           k + m)"
  using assms(2-4)
proof (induction m)
  case 0
  then show ?case by simp
next
  case (Suc m)
  let ?inv = "\<lambda>i. spec_newInventory supp (spec_demand sf lf ef i) (inventory product ! i) (orders product ! i)"
  let ?led = "\<lambda>i. spec_ledger supp (spec_demand sf lf ef i) (inventory product ! i)
                       (orders product ! i) (rnd (k + i)) (ps ! i)"
  let ?zero = "\<lambda>i::nat. 0::real"
  let ?p = "product\<lparr>demandHistory := demandHistory product @ map (spec_demand sf lf ef) [0..<m],
                   inventory := map ?inv [0..<m] @ drop m (inventory product),
                   orders := map ?zero [0..<m] @ drop m (orders product)\<rparr>"
  let ?ps = "map ?led [0..<m] @ drop m ps"
  have m: "m < length (inventory product)" "m < length (orders product)" "m < length ps"
    using Suc.prems by simp_all
  have IH: "forEach (playerStep rnd 20 sf lf ef) [0..<m] (product, ps, k) = Inr (?p, ?ps, k + m)"
    using Suc.IH m by simp
  have f: "find (\<lambda>s. supplier_id s = supplier ?p) suppliers = Some supp"
    using assms(1) by simp
  have l: "m < length (inventory ?p)" "m < length (orders ?p)"
    using m by simp_all
  have r: "inventory ?p ! m = inventory product ! m" "orders ?p ! m = orders product ! m" "?ps ! m = ps ! m"
    using m by (simp_all add: nth_append)
  have u1: "(inventory ?p)[m := ?inv m] = map ?inv [0..<Suc m] @ drop (Suc m) (inventory product)"
    using update_prefix_map[OF m(1), of ?inv] by simp
  have u2: "(orders ?p)[m := 0] = map ?zero [0..<Suc m] @ drop (Suc m) (orders product)"
    using update_prefix_map[OF m(2), of ?zero] by simp
  have u3: "?ps[m := ?led m] = map ?led [0..<Suc m] @ drop (Suc m) ps"
    using update_prefix_map[OF m(3), of ?led] by simp
  have step: "playerStep rnd 20 sf lf ef m (?p, ?ps, k + m) =
      Inr (product\<lparr>demandHistory := demandHistory product @ map (spec_demand sf lf ef) [0..<Suc m],
                   inventory := map ?inv [0..<Suc m] @ drop (Suc m) (inventory product),
                   orders := map ?zero [0..<Suc m] @ drop (Suc m) (orders product)\<rparr>,
           map ?led [0..<Suc m] @ drop (Suc m) ps, k + Suc m)"
    unfolding playerStep_Some[OF f l] r u1 u2 u3 by simp
  have "forEach (playerStep rnd 20 sf lf ef) ([0..<m] @ [m]) (product, ps, k) =
        playerStep rnd 20 sf lf ef m (?p, ?ps, k + m)"
    by (simp add: forEach_append IH forEach_single del: forEach.simps)
  then show ?case using step by simp
qed

lemma playersLoop_Inr_D:
  assumes "forEach (playerStep rnd b sf lf ef) [0..<m] (product, ps, k) = Inr st'" and "0 < m"
  shows "(\<exists>supp. find (\<lambda>s. supplier_id s = supplier product) suppliers = Some supp)
         \<and> m \<le> length (inventory product) \<and> m \<le> length (orders product)"
proof -
  obtain n where n: "m = Suc n" using assms(2) by (cases m) auto
  from assms(1) obtain st1 where a: "forEach (playerStep rnd b sf lf ef) [0..<n] (product, ps, k) = Inr st1"
    and b: "playerStep rnd b sf lf ef n st1 = Inr st'"
    unfolding n upt_Suc_append[OF le0] forEach_snoc_Inr by blast
  let ?P = "\<lambda>st. supplier (fst st) = supplier product \<and> length (inventory (fst st)) = length (inventory product)
         \<and> length (orders (fst st)) = length (orders product)"
  have "?P st1"
  proof (rule forEach_invariant[OF a, where P = ?P])
    show "?P (product, ps, k)" by simp
  next
    fix x a c assume "?P a" "playerStep rnd b sf lf ef x a = Inr c"
    then show "?P c" using playerStep_frame[of rnd b sf lf ef x "fst a" "fst (snd a)" "snd (snd a)" "fst c" "fst (snd c)" "snd (snd c)"]
      by simp
  qed
  moreover obtain p1 ps1 k1 where st1: "st1 = (p1, ps1, k1)" by (cases st1) auto
  ultimately show ?thesis using playerStep_Inr_D[of rnd b sf lf ef n p1 ps1 k1 st'] b n by auto
qed

section \<open>The AI policy\<close>

lemma foldl_plus_sum_list: "foldl (\<lambda>a b. a + b) a xs = a + sum_list (xs :: real list)"
  by (induction xs arbitrary: a) simp_all

lemma find_None_product_id:
  "find (\<lambda>p. product_id p = productId) ps = None \<longleftrightarrow> productId \<notin> product_id ` set ps"
  by (auto simp add: find_None_iff)

lemma spec_aiOrder_nonneg:
  assumes "0 \<le> productionCapacity (players gameState ! 0)" and "0 \<le> budget (players gameState ! 0)"
  shows "0 \<le> spec_aiOrder gameState product d"
proof -
  have "0 \<le> real_of_int \<lfloor>budget (players gameState ! 0) / 10\<rfloor>"
    using assms(2) by simp
  then have "(0::real) \<le> Min {max 0 (spec_forecast gameState product * (1 + 0.2 * d) - inventory product ! 0),
                 productionCapacity (players gameState ! 0),
                 real_of_int \<lfloor>budget (players gameState ! 0) / 10\<rfloor>}"
    using assms(1) by simp
  then have "round (0::real) \<le> spec_aiOrder gameState product d"
    unfolding spec_aiOrder_def by (rule round_mono)
  then show ?thesis by simp
qed

lemma aiStrategy_found:
  assumes "find (\<lambda>p. product_id p = productId) (products gameState) = Some product"
    and "players gameState \<noteq> []" and "inventory product \<noteq> []"
  shows "aiStrategy gameState productId d = Inr (spec_aiOrder gameState product d)"
proof -
  obtain player0 others where p: "players gameState = player0 # others"
    using assms(2) by (cases "players gameState") auto
  obtain inventory0 rest where i: "inventory product = inventory0 # rest"
    using assms(3) by (cases "inventory product") auto
  have m: "min (min a b) c = Min {a, b, c}" for a b c :: real
    by (simp add: min.assoc)
  show ?thesis
    using assms(1) p i
    by (simp add: aiStrategy_def Let_def spec_aiOrder_def spec_forecast_def spec_mean_def
        foldl_plus_sum_list m add_diff_eq del: Min_insert)
qed

section \<open>One product\<close>

lemma playersLoop_slots:
  assumes "find (\<lambda>s. supplier_id s = supplier product) suppliers = Some supp"
    and "length ps \<le> length (inventory product)" and "length ps \<le> length (orders product)"
  shows "forEach (playerStep rnd 20 sf lf ef) [0..<length ps] (product, ps, k) =
      Inr (slotsProduct supp sf lf ef (length ps) product, slotsPlayers supp sf lf ef rnd k product ps,
           k + length ps)"
  using playersLoop_closed[OF assms(1) assms(2) assms(3) order_refl, of rnd sf lf ef k]
  by (simp add: slotsProduct_def slotsPlayers_def)

lemma lifecycleUpdate_frame:
  "snd (lifecycleUpdate rnd (product, k)) = k + 1"
  "inventory (fst (lifecycleUpdate rnd (product, k))) = inventory product"
  "orders (fst (lifecycleUpdate rnd (product, k))) = orders product"
  "demandHistory (fst (lifecycleUpdate rnd (product, k))) = demandHistory product"
  "product_id (fst (lifecycleUpdate rnd (product, k))) = product_id product"
  "supplier (fst (lifecycleUpdate rnd (product, k))) = supplier product"
  by (simp_all add: lifecycleUpdate_def Let_def)

lemma aiStrategy_aiScore:
  "aiStrategy (s\<lparr>aiScore := a\<rparr>) productId d = aiStrategy s productId d"
  by (simp add: aiStrategy_def Let_def split: option.splits list.splits)

lemma aiStrategy_Inr_players:
  "aiStrategy s productId d = Inr x \<Longrightarrow> players s \<noteq> []"
  by (auto simp add: aiStrategy_def Let_def split: option.splits list.splits)

lemma aiPlayer_Inr_D:
  assumes "aiPlayer gm product st = Inr s2"
  shows "\<exists>aiOrder. aiStrategy st (product_id product) (difficulty gm) = Inr aiOrder
           \<and> demandHistory product \<noteq> [] \<and> inventory product \<noteq> []
           \<and> s2 = st\<lparr>aiScore := aiScore st + aiNet (inventory product ! 0) (last (demandHistory product)) aiOrder\<rparr>"
  using assms
  by (auto simp add: aiPlayer_def Let_def aiNet_def split: sum.splits if_splits)

text \<open>
  One product: what a successful \<open>productStep\<close> has done, in closed form.
\<close>

lemma productStep_Inr_D:
  assumes "productStep gm rnd pidx (s, k) = Inr (s2, k2)"
  defines "product \<equiv> products s ! pidx"
  defines "sf \<equiv> seasonalFactors s (currentSeason s)"
  defines "lf \<equiv> lifecycleFactorOf (products s ! pidx)"
  defines "ef \<equiv> environmentalFactorOf s"
  shows "\<exists>supp aiOrder product2.
      find (\<lambda>x. supplier_id x = supplier product) suppliers = Some supp
    \<and> players s \<noteq> []
    \<and> length (players s) \<le> length (inventory product)
    \<and> length (players s) \<le> length (orders product)
    \<and> product2 = fst (lifecycleUpdate rnd (slotsProduct supp sf lf ef (length (players s)) product, k + length (players s)))
    \<and> k2 = k + length (players s) + 1
    \<and> aiStrategy s2 (product_id product) (difficulty gm) = Inr aiOrder
    \<and> s2 = s\<lparr>products := (products s)[pidx := product2],
              players := slotsPlayers supp sf lf ef rnd k product (players s),
              aiScore := aiScore s + aiNet (inventory product2 ! 0) (last (demandHistory product2)) aiOrder\<rparr>"
proof -
  let ?n = "length (players s)"
  from assms(1) obtain product1 players1 k1 where
    loop: "forEach (playerStep rnd 20 sf lf ef) [0..<?n] (product, players s, k) = Inr (product1, players1, k1)"
    by (auto simp add: productStep_def Let_def product_def sf_def lf_def ef_def lifecycleFactorOf_def
        environmentalFactorOf_def split: sum.splits prod.splits)
  let ?product2 = "fst (lifecycleUpdate rnd (product1, k1))"
  let ?st = "s\<lparr>products := (products s)[pidx := ?product2], players := players1\<rparr>"
  from assms(1) loop have ai: "aiPlayer gm ?product2 ?st = Inr s2" and k2: "k2 = snd (lifecycleUpdate rnd (product1, k1))"
    by (auto simp add: productStep_def Let_def product_def sf_def lf_def ef_def lifecycleFactorOf_def
        environmentalFactorOf_def split: sum.splits prod.splits)
  from aiPlayer_Inr_D[OF ai] obtain aiOrder where
    strat: "aiStrategy ?st (product_id ?product2) (difficulty gm) = Inr aiOrder"
    and s2: "s2 = ?st\<lparr>aiScore := aiScore ?st + aiNet (inventory ?product2 ! 0) (last (demandHistory ?product2)) aiOrder\<rparr>"
    by blast
  have len1: "length players1 = ?n"
  proof -
    let ?P = "\<lambda>st. length (fst (snd st)) = ?n"
    have "?P (product1, players1, k1)"
    proof (rule forEach_invariant[OF loop, where P = ?P])
      show "?P (product, players s, k)" by simp
    next
      fix x a c assume "?P a" "playerStep rnd 20 sf lf ef x a = Inr c"
      then show "?P c"
        using playerStep_frame[of rnd 20 sf lf ef x "fst a" "fst (snd a)" "snd (snd a)" "fst c" "fst (snd c)" "snd (snd c)"]
        by simp
    qed
    then show ?thesis by simp
  qed
  have ne: "players s \<noteq> []"
    using aiStrategy_Inr_players[OF strat] len1 by auto
  then have pos: "0 < ?n" by simp
  from playersLoop_Inr_D[OF loop pos] obtain supp where
    f: "find (\<lambda>x. supplier_id x = supplier product) suppliers = Some supp"
    and l: "?n \<le> length (inventory product)" "?n \<le> length (orders product)"
    by blast
  have closed: "product1 = slotsProduct supp sf lf ef ?n product"
    "players1 = slotsPlayers supp sf lf ef rnd k product (players s)" "k1 = k + ?n"
    using playersLoop_slots[OF f l, of rnd sf lf ef k] loop by simp_all
  have id: "product_id ?product2 = product_id product"
    by (simp add: lifecycleUpdate_frame closed slotsProduct_def)
  have strat2: "aiStrategy s2 (product_id product) (difficulty gm) = Inr aiOrder"
    using strat unfolding s2 aiStrategy_aiScore id .
  show ?thesis
    using f ne l strat2 s2 k2 closed by (simp add: lifecycleUpdate_frame)
qed

section \<open>The loop over the products and the turn\<close>

lemma startTurn_frame:
  "products (fst (startTurn rnd s)) = products s"
  "players (fst (startTurn rnd s)) = players s"
  "seasonalFactors (fst (startTurn rnd s)) = seasonalFactors s"
  "tradeOffers (fst (startTurn rnd s)) = tradeOffers s"
  "aiScore (fst (startTurn rnd s)) = aiScore s"
  "turn (fst (startTurn rnd s)) = turn s + 1"
  "currentSeason (fst (startTurn rnd s)) = [Spring, Summer, Autumn, Winter] ! ((turn s + 1) mod 4)"
  by (simp_all add: startTurn_def Let_def split: prod.splits)

lemma productFrame_refl: "productFrame s s"
  by (simp add: productFrame_def)

lemma productFrame_trans: "productFrame s s1 \<Longrightarrow> productFrame s1 s2 \<Longrightarrow> productFrame s s2"
  by (simp add: productFrame_def)

lemma slotsPlayers_length: "length (slotsPlayers supp sf lf ef rnd k product ps) = length ps"
  by (simp add: slotsPlayers_def)

lemma slotsPlayers_nth:
  "i < length ps \<Longrightarrow> slotsPlayers supp sf lf ef rnd k product ps ! i =
     spec_ledger supp (spec_demand sf lf ef i) (inventory product ! i) (orders product ! i) (rnd (k + i)) (ps ! i)"
  by (simp add: slotsPlayers_def)

lemma spec_ledger_investments:
  "rdInvestment (spec_ledger supp d stock qty u player) = rdInvestment player"
  "facilityInvestment (spec_ledger supp d stock qty u player) = facilityInvestment player"
  "productionCapacity (spec_ledger supp d stock qty u player) = productionCapacity player"
  by (simp_all add: spec_ledger_def)

lemma slotsPlayers_investments:
  "map rdInvestment (slotsPlayers supp sf lf ef rnd k product ps) = map rdInvestment ps"
  "map facilityInvestment (slotsPlayers supp sf lf ef rnd k product ps) = map facilityInvestment ps"
  by (rule nth_equalityI; simp add: slotsPlayers_length slotsPlayers_nth spec_ledger_investments)+

lemma productStep_frame:
  assumes "productStep gm rnd pidx (s, k) = Inr (s2, k2)"
  shows "productFrame s s2" and "j \<noteq> pidx \<Longrightarrow> products s2 ! j = products s ! j"
proof -
  from productStep_Inr_D[OF assms] obtain supp aiOrder product2 where
    s2: "s2 = s\<lparr>products := (products s)[pidx := product2],
              players := slotsPlayers supp (seasonalFactors s (currentSeason s)) (lifecycleFactorOf (products s ! pidx))
                 (environmentalFactorOf s) rnd k (products s ! pidx) (players s),
              aiScore := aiScore s + aiNet (inventory product2 ! 0) (last (demandHistory product2)) aiOrder\<rparr>"
    by blast
  show "productFrame s s2"
    unfolding s2 by (simp add: productFrame_def slotsPlayers_investments slotsPlayers_length)
  show "j \<noteq> pidx \<Longrightarrow> products s2 ! j = products s ! j"
    unfolding s2 by simp
qed

lemma productsLoop_frame:
  assumes "forEach (productStep gm rnd) xs (s, k) = Inr (s', k')"
  shows "productFrame s s' \<and> (\<forall>j. j \<notin> set xs \<longrightarrow> products s' ! j = products s ! j)"
proof -
  let ?P = "\<lambda>st. productFrame s (fst st) \<and> (\<forall>j. j \<notin> set xs \<longrightarrow> products (fst st) ! j = products s ! j)"
  have "?P (s', k')"
  proof (rule forEach_invariant[OF assms, where P = ?P])
    show "?P (s, k)" by (simp add: productFrame_refl)
  next
    fix x a b assume x: "x \<in> set xs" and a: "?P a" and step: "productStep gm rnd x a = Inr b"
    obtain sa ka sb kb where ab: "a = (sa, ka)" "b = (sb, kb)" by (cases a, cases b) auto
    from productStep_frame[of gm rnd x sa ka sb kb] step ab
    have fr: "productFrame sa sb" and oth: "\<And>j. j \<noteq> x \<Longrightarrow> products sb ! j = products sa ! j"
      by auto
    have "productFrame s sb"
      using a fr productFrame_trans[of s sa sb] unfolding ab by simp
    moreover have "products sb ! j = products s ! j" if "j \<notin> set xs" for j
    proof -
      have "j \<noteq> x" using that x by auto
      then show ?thesis using oth[of j] a that unfolding ab by simp
    qed
    ultimately show "?P b" unfolding ab by simp
  qed
  then show ?thesis by simp
qed

lemma upt_split3: "pidx < n \<Longrightarrow> [0..<n] = [0..<pidx] @ [pidx] @ [Suc pidx..<n]"
  by (metis append_Cons append_Nil le0 less_imp_le_nat upt_add_eq_append upt_rec le_add_diff_inverse)

lemma nextTurn_Inr_D:
  assumes "nextTurn gm rnd s = Inr s'"
  shows "\<exists>s3 k3. processProducts gm rnd (startTurn rnd s) = Inr (s3, k3)
           \<and> settleTrades (applyInvestments s3) = Inr s'"
  using assms by (auto simp add: nextTurn_def split: sum.splits)

lemma tradeStep_products:
  "tradeStep offer st = Inr st' \<Longrightarrow> products st' = products st \<and> aiScore st' = aiScore st
      \<and> length (players st') = length (players st) \<and> tradeOffers st' = tradeOffers st"
  by (auto simp add: tradeStep_def Let_def split: if_splits)

lemma settleTrades_frame:
  assumes "settleTrades st = Inr s'"
  shows "products s' = products st" "aiScore s' = aiScore st" "length (players s') = length (players st)"
    "tradeOffers s' = []"
proof -
  from assms obtain s1 where loop: "forEach tradeStep (tradeOffers st) st = Inr s1"
    and s': "s' = s1\<lparr>tradeOffers := []\<rparr>"
    by (auto simp add: settleTrades_def split: sum.splits)
  let ?P = "\<lambda>x. products x = products st \<and> aiScore x = aiScore st \<and> length (players x) = length (players st)"
  have "?P s1"
    by (rule forEach_invariant[OF loop, where P = ?P]) (auto dest: tradeStep_products)
  then show "products s' = products st" "aiScore s' = aiScore st" "length (players s') = length (players st)"
    "tradeOffers s' = []"
    unfolding s' by simp_all
qed

lemma applyInvestments_frame:
  "products (applyInvestments st) = products st" "aiScore (applyInvestments st) = aiScore st"
  "length (players (applyInvestments st)) = length (players st)"
  "tradeOffers (applyInvestments st) = tradeOffers st"
  by (simp_all add: applyInvestments_def)

text \<open>
  The turn seen from one product: the state before and after its step, and what the
  step and the rest of the turn do to it.
\<close>

lemma nextTurn_product:
  assumes "nextTurn gm rnd s = Inr s'" and "pidx < length (products s)"
  defines "product \<equiv> products s ! pidx"
  defines "s0 \<equiv> fst (startTurn rnd s)"
  defines "sf \<equiv> seasonalFactors s0 (currentSeason s0)"
  defines "lf \<equiv> lifecycleFactorOf (products s ! pidx)"
  defines "ef \<equiv> environmentalFactorOf s0"
  shows "\<exists>supp s1 k1 s2 k2 aiOrder product2.
      forEach (productStep gm rnd) [0..<pidx] (startTurn rnd s) = Inr (s1, k1)
    \<and> productStep gm rnd pidx (s1, k1) = Inr (s2, k2)
    \<and> find (\<lambda>x. supplier_id x = supplier product) suppliers = Some supp
    \<and> length (players s1) = length (players s) \<and> players s \<noteq> []
    \<and> length (players s) \<le> length (inventory product)
    \<and> length (players s) \<le> length (orders product)
    \<and> product2 = fst (lifecycleUpdate rnd (slotsProduct supp sf lf ef (length (players s)) product, k1 + length (players s)))
    \<and> products s2 ! pidx = product2
    \<and> products s' ! pidx = product2
    \<and> players s2 = slotsPlayers supp sf lf ef rnd k1 product (players s1)
    \<and> aiStrategy s2 (product_id product) (difficulty gm) = Inr aiOrder
    \<and> aiScore s2 = aiScore s1 + aiNet (inventory product2 ! 0) (last (demandHistory product2)) aiOrder"
proof -
  let ?n = "length (products s)"
  from nextTurn_Inr_D[OF assms(1)] obtain s3 k3 where
    pp: "processProducts gm rnd (startTurn rnd s) = Inr (s3, k3)"
    and st: "settleTrades (applyInvestments s3) = Inr s'"
    by blast
  have pp': "forEach (productStep gm rnd) [0..<?n] (startTurn rnd s) = Inr (s3, k3)"
    using pp by (simp add: processProducts_def startTurn_frame)
  have all: "forEach (productStep gm rnd) ([0..<pidx] @ [pidx] @ [Suc pidx..<?n]) (startTurn rnd s) = Inr (s3, k3)"
    unfolding upt_split3[OF assms(2), symmetric] by (rule pp')
  then obtain st1 st2 where
    a: "forEach (productStep gm rnd) [0..<pidx] (startTurn rnd s) = Inr st1"
    and b: "productStep gm rnd pidx st1 = Inr st2"
    and c: "forEach (productStep gm rnd) [Suc pidx..<?n] st2 = Inr (s3, k3)"
    unfolding forEach_append_Inr forEach_single by blast
  obtain s1 k1 s2 k2 where st12: "st1 = (s1, k1)" "st2 = (s2, k2)"
    by (cases st1, cases st2) auto
  have a': "forEach (productStep gm rnd) [0..<pidx] (s0, snd (startTurn rnd s)) = Inr (s1, k1)"
    using a st12 by (simp add: s0_def)
  from productsLoop_frame[OF a'] have fr1: "productFrame s0 s1" and same1: "products s1 ! pidx = products s0 ! pidx"
    by auto
  from productsLoop_frame[OF c[unfolded st12]] have same3: "products s3 ! pidx = products s2 ! pidx"
    by auto
  have p1: "products s1 ! pidx = product"
    using same1 by (simp add: s0_def startTurn_frame product_def)
  have len1: "length (players s1) = length (players s)" "length (products s1) = length (products s)"
    using fr1 by (simp_all add: productFrame_def s0_def startTurn_frame)
  have fac1: "seasonalFactors s1 (currentSeason s1) = sf" "environmentalFactorOf s1 = ef"
    using fr1 by (simp_all add: productFrame_def sf_def ef_def environmentalFactorOf_def)
  have lf1: "lifecycleFactorOf product = lf"
    by (simp add: lf_def product_def)
  have b': "productStep gm rnd pidx (s1, k1) = Inr (s2, k2)"
    using b st12 by simp
  from productStep_Inr_D[OF b', unfolded p1 fac1 lf1] obtain supp aiOrder product2 where
    f: "find (\<lambda>x. supplier_id x = supplier product) suppliers = Some supp"
    and ne: "players s1 \<noteq> []"
    and l: "length (players s1) \<le> length (inventory product)" "length (players s1) \<le> length (orders product)"
    and p2: "product2 = fst (lifecycleUpdate rnd (slotsProduct supp sf lf ef (length (players s1)) product, k1 + length (players s1)))"
    and strat: "aiStrategy s2 (product_id product) (difficulty gm) = Inr aiOrder"
    and s2: "s2 = s1\<lparr>products := (products s1)[pidx := product2],
              players := slotsPlayers supp sf lf ef rnd k1 product (players s1),
              aiScore := aiScore s1 + aiNet (inventory product2 ! 0) (last (demandHistory product2)) aiOrder\<rparr>"
    by (elim exE conjE) (rule that, assumption+)
  have ps2: "products s2 ! pidx = product2"
    unfolding s2 using assms(2) len1 by simp
  have ps': "products s' ! pidx = product2"
    using settleTrades_frame(1)[OF st] same3 ps2 by (simp add: applyInvestments_frame)
  have ne': "players s \<noteq> []" using ne len1 by auto
  have a'': "forEach (productStep gm rnd) [0..<pidx] (startTurn rnd s) = Inr (s1, k1)"
    using a st12 by simp
  note l' = l[unfolded len1(1)] and p2' = p2[unfolded len1(1)]
  have pl2: "players s2 = slotsPlayers supp sf lf ef rnd k1 product (players s1)"
    unfolding s2 by simp
  have ai2: "aiScore s2 = aiScore s1 + aiNet (inventory product2 ! 0) (last (demandHistory product2)) aiOrder"
    unfolding s2 by simp
  show ?thesis
    by (rule exI[of _ supp], rule exI[of _ s1], rule exI[of _ k1], rule exI[of _ s2], rule exI[of _ k2],
        rule exI[of _ aiOrder], rule exI[of _ product2], intro conjI)
      (fact a'' b' f len1(1) ne' l' p2' ps2 ps' pl2 strat ai2)+
qed

lemma slotsProduct_nth:
  assumes "slot < n"
  shows "inventory (slotsProduct supp sf lf ef n product) ! slot =
           spec_newInventory supp (spec_demand sf lf ef slot) (inventory product ! slot) (orders product ! slot)"
    and "orders (slotsProduct supp sf lf ef n product) ! slot = 0"
  using assms by (simp_all add: slotsProduct_def nth_append)

lemma slotsProduct_demandHistory:
  "demandHistory (slotsProduct supp sf lf ef n product) =
     demandHistory product @ map (spec_demand sf lf ef) [0..<n]"
  by (simp add: slotsProduct_def)

lemma realizedDemand_eq:
  "realizedDemand rnd s pidx slot =
     spec_demand (seasonalFactors (fst (startTurn rnd s)) (currentSeason (fst (startTurn rnd s))))
       (lifecycleFactorOf (products s ! pidx)) (environmentalFactorOf (fst (startTurn rnd s))) slot"
  by (simp add: realizedDemand_def Let_def)

text \<open>The turn seen from one product and one slot.\<close>

lemma nextTurn_slot:
  assumes "nextTurn gm rnd s = Inr s'" and "pidx < length (products s)" and "slot < length (players s)"
  shows "\<exists>supp s1 k1 s2 k2.
      find (\<lambda>x. supplier_id x = supplier (products s ! pidx)) suppliers = Some supp
    \<and> forEach (productStep gm rnd) [0..<pidx] (startTurn rnd s) = Inr (s1, k1)
    \<and> productStep gm rnd pidx (s1, k1) = Inr (s2, k2)
    \<and> players s2 ! slot =
        spec_ledger supp (realizedDemand rnd s pidx slot) (inventory (products s ! pidx) ! slot)
          (orders (products s ! pidx) ! slot) (rnd (k1 + slot)) (players s1 ! slot)
    \<and> inventory (products s2 ! pidx) ! slot =
        spec_newInventory supp (realizedDemand rnd s pidx slot) (inventory (products s ! pidx) ! slot)
          (orders (products s ! pidx) ! slot)
    \<and> orders (products s2 ! pidx) ! slot = 0
    \<and> inventory (products s' ! pidx) = inventory (products s2 ! pidx)
    \<and> orders (products s' ! pidx) = orders (products s2 ! pidx)"
proof -
  let ?s0 = "fst (startTurn rnd s)"
  let ?sf = "seasonalFactors ?s0 (currentSeason ?s0)"
  let ?lf = "lifecycleFactorOf (products s ! pidx)"
  let ?ef = "environmentalFactorOf ?s0"
  let ?product = "products s ! pidx"
  from nextTurn_product[OF assms(1,2)] obtain supp s1 k1 s2 k2 aiOrder product2 where
    a: "forEach (productStep gm rnd) [0..<pidx] (startTurn rnd s) = Inr (s1, k1)"
    and b: "productStep gm rnd pidx (s1, k1) = Inr (s2, k2)"
    and f: "find (\<lambda>x. supplier_id x = supplier ?product) suppliers = Some supp"
    and len: "length (players s1) = length (players s)"
    and p2: "product2 = fst (lifecycleUpdate rnd (slotsProduct supp ?sf ?lf ?ef (length (players s)) ?product, k1 + length (players s)))"
    and ps2: "products s2 ! pidx = product2"
    and ps': "products s' ! pidx = product2"
    and pl2: "players s2 = slotsPlayers supp ?sf ?lf ?ef rnd k1 ?product (players s1)"
    by (elim exE conjE) (rule that, assumption+)
  have slot1: "slot < length (players s1)" using assms(3) len by simp
  have c1: "players s2 ! slot =
        spec_ledger supp (realizedDemand rnd s pidx slot) (inventory ?product ! slot)
          (orders ?product ! slot) (rnd (k1 + slot)) (players s1 ! slot)"
    unfolding pl2 realizedDemand_eq by (rule slotsPlayers_nth[OF slot1])
  have c2: "inventory (products s2 ! pidx) ! slot =
        spec_newInventory supp (realizedDemand rnd s pidx slot) (inventory ?product ! slot) (orders ?product ! slot)"
    unfolding ps2 p2 lifecycleUpdate_frame realizedDemand_eq by (rule slotsProduct_nth(1)[OF assms(3)])
  have c3: "orders (products s2 ! pidx) ! slot = 0"
    unfolding ps2 p2 lifecycleUpdate_frame by (rule slotsProduct_nth(2)[OF assms(3)])
  have c4: "inventory (products s' ! pidx) = inventory (products s2 ! pidx)"
    "orders (products s' ! pidx) = orders (products s2 ! pidx)"
    unfolding ps2 ps' by simp_all
  show ?thesis
    by (rule exI[of _ supp], rule exI[of _ s1], rule exI[of _ k1], rule exI[of _ s2], rule exI[of _ k2],
        intro conjI) (fact f a b c1 c2 c3 c4)+
qed

lemma spec_newInventory_nonneg: "0 \<le> spec_newInventory supp d stock qty"
  by (simp add: spec_newInventory_def)

lemma nextTurn_orderedState: "\<not> isl (nextTurn Normal rnd0 orderedState)"
  by code_simp

lemma half_not_int: "(81 / 2 :: real) \<notin> \<int>"
proof
  assume "(81 / 2 :: real) \<in> \<int>"
  then have "frac (81 / 2 :: real) = 0" by (simp add: frac_eq_0_iff)
  then show False by (simp add: frac_def)
qed

lemma nextTurn_initialState: "\<not> isl (nextTurn Normal rnd0 initialState)"
  by code_simp

section \<open>Trade settlement\<close>

lemma sum_list_update_real:
  "i < length xs \<Longrightarrow> sum_list (xs[i := x]) = sum_list xs - xs ! i + (x :: real)"
proof (induction xs arbitrary: i)
  case Nil
  then show ?case by simp
next
  case (Cons y ys)
  then show ?case by (cases i) simp_all
qed

lemma budgetsOnly_refl: "budgetsOnly ps ps"
  by (simp add: budgetsOnly_def)

lemma budgetsOnly_trans: "budgetsOnly ps qs \<Longrightarrow> budgetsOnly qs rs \<Longrightarrow> budgetsOnly ps rs"
  by (simp add: budgetsOnly_def)

lemma budgetsOnly_length: "budgetsOnly ps qs \<Longrightarrow> length qs = length ps"
  unfolding budgetsOnly_def by (rule map_eq_imp_length_eq)

lemma budgetsOnly_update: "budgetsOnly ps (ps[i := (ps ! i)\<lparr>budget := x\<rparr>])"
proof -
  have "map (\<lambda>p. p\<lparr>budget := 0\<rparr>) (ps[i := (ps ! i)\<lparr>budget := x\<rparr>])
      = (map (\<lambda>p. p\<lparr>budget := 0\<rparr>) ps)[i := (ps ! i)\<lparr>budget := 0\<rparr>]"
    by (simp add: map_update)
  also have "\<dots> = map (\<lambda>p. p\<lparr>budget := 0\<rparr>) ps"
    by (cases "i < length ps") (simp_all add: list_update_same_conv list_update_beyond)
  finally show ?thesis by (simp add: budgetsOnly_def)
qed

text \<open>One offer: the step of the source against the step on the budgets.\<close>

lemma tradeStep_cases:
  assumes "tradeStep offer st = Inr st'"
  obtains (paid) "amount offer \<le> budget (players st ! offer_from offer)"
      "offer_from offer < length (players st)" "offer_to offer < length (players st)"
      "st' = st\<lparr>players :=
          ((players st)[offer_from offer := (players st ! offer_from offer)
              \<lparr>budget := budget (players st ! offer_from offer) - amount offer\<rparr>])
          [offer_to offer :=
            (((players st)[offer_from offer := (players st ! offer_from offer)
              \<lparr>budget := budget (players st ! offer_from offer) - amount offer\<rparr>]) ! offer_to offer)
            \<lparr>budget := budget (((players st)[offer_from offer := (players st ! offer_from offer)
              \<lparr>budget := budget (players st ! offer_from offer) - amount offer\<rparr>]) ! offer_to offer)
              + amount offer\<rparr>]\<rparr>"
  | (dropped) "\<not> amount offer \<le> budget (players st ! offer_from offer)"
      "offer_from offer < length (players st)" "st' = st"
  using assms by (auto simp add: tradeStep_def Let_def split: if_splits)

lemma tradeStep_Inr_D:
  assumes "tradeStep offer st = Inr st'"
  shows "offer_from offer < length (players st)"
    and "map budget (players st') = spec_settle [offer] (map budget (players st))"
    and "budgetsOnly (players st) (players st')"
    and "sum_list (map budget (players st')) = sum_list (map budget (players st))"
    and "st'\<lparr>players := []\<rparr> = st\<lparr>players := []\<rparr>"
proof -
  let ?f = "offer_from offer" and ?t = "offer_to offer" and ?a = "amount offer"
  let ?ps = "players st"
  let ?ps1 = "?ps[?f := (?ps ! ?f)\<lparr>budget := budget (?ps ! ?f) - ?a\<rparr>]"
  let ?ps2 = "?ps1[?t := (?ps1 ! ?t)\<lparr>budget := budget (?ps1 ! ?t) + ?a\<rparr>]"
  let ?bs = "map budget ?ps"
  let ?bs1 = "?bs[?f := ?bs ! ?f - ?a]"
  show f: "?f < length ?ps"
    using assms by (rule tradeStep_cases)
  from assms show "st'\<lparr>players := []\<rparr> = st\<lparr>players := []\<rparr>"
    by (rule tradeStep_cases) simp_all
  from assms show "budgetsOnly ?ps (players st')"
  proof (cases rule: tradeStep_cases)
    case paid
    have "players st' = ?ps2" unfolding paid(4) by simp
    then show ?thesis
      using budgetsOnly_trans[OF budgetsOnly_update[of ?ps ?f] budgetsOnly_update[of ?ps1 ?t]]
      by simp
  next
    case dropped
    then show ?thesis by (simp add: budgetsOnly_refl)
  qed
  have b1: "map budget ?ps1 = ?bs1"
    using f by (simp add: map_update)
  have b2: "map budget ?ps2 = ?bs1[?t := ?bs1 ! ?t + ?a]" if "?t < length ?ps"
  proof -
    have "map budget ?ps2 = (map budget ?ps1)[?t := budget (?ps1 ! ?t) + ?a]"
      by (simp add: map_update)
    moreover have "budget (?ps1 ! ?t) = map budget ?ps1 ! ?t"
      using that by simp
    ultimately show ?thesis unfolding b1 by simp
  qed
  from assms show "map budget (players st') = spec_settle [offer] ?bs"
  proof (cases rule: tradeStep_cases)
    case paid
    have "players st' = ?ps2" unfolding paid(4) by simp
    then have "map budget (players st') = ?bs1[?t := ?bs1 ! ?t + ?a]"
      using b2[OF paid(3)] by simp
    moreover have "?a \<le> ?bs ! ?f" using paid(1) f by simp
    ultimately show ?thesis by (simp add: Let_def)
  next
    case dropped
    then have "\<not> ?a \<le> ?bs ! ?f" by simp
    then show ?thesis using dropped(3) by simp
  qed
  from assms show "sum_list (map budget (players st')) = sum_list ?bs"
  proof (cases rule: tradeStep_cases)
    case paid
    have "players st' = ?ps2" unfolding paid(4) by simp
    then have "map budget (players st') = ?bs1[?t := ?bs1 ! ?t + ?a]"
      using b2[OF paid(3)] by simp
    then show ?thesis
      using f paid(3) by (simp add: sum_list_update_real)
  next
    case dropped
    then show ?thesis by simp
  qed
qed

lemma tradeStep_offer:
  assumes "tradeStep offer st = Inr st'"
  shows "(amount offer \<le> budget (players st ! offer_from offer) \<longrightarrow> offer_from offer \<noteq> offer_to offer \<longrightarrow>
            budget (players st' ! offer_from offer) = budget (players st ! offer_from offer) - amount offer
          \<and> budget (players st' ! offer_to offer) = budget (players st ! offer_to offer) + amount offer)
       \<and> (\<forall>j. j \<noteq> offer_from offer \<longrightarrow> j \<noteq> offer_to offer \<longrightarrow> players st' ! j = players st ! j)
       \<and> (\<not> amount offer \<le> budget (players st ! offer_from offer) \<longrightarrow> players st' = players st)"
  using assms
proof (cases rule: tradeStep_cases)
  case paid
  show ?thesis unfolding paid(4) using paid(1,2,3) by (simp add: nth_list_update)
next
  case dropped
  then show ?thesis by simp
qed

lemma tradeLoop:
  assumes "forEach tradeStep offers st = Inr st'"
  shows "map budget (players st') = spec_settle offers (map budget (players st))"
    and "budgetsOnly (players st) (players st')"
    and "sum_list (map budget (players st')) = sum_list (map budget (players st))"
    and "st'\<lparr>players := []\<rparr> = st\<lparr>players := []\<rparr>"
    and "\<forall>offer \<in> set offers. offer_from offer < length (players st)"
  using assms
proof (induction offers arbitrary: st)
  case Nil
  {
    case 1 then show ?case by simp
  next
    case 2 then show ?case by (simp add: budgetsOnly_refl)
  next
    case 3 then show ?case by simp
  next
    case 4 then show ?case by simp
  next
    case 5 then show ?case by simp
  }
next
  case (Cons offer offers)
  {
    case 1
    from 1 obtain st1 where one: "tradeStep offer st = Inr st1"
      and rest: "forEach tradeStep offers st1 = Inr st'"
      by (auto split: sum.splits)
    have "map budget (players st') = spec_settle offers (map budget (players st1))"
      by (rule Cons.IH(1)[OF rest])
    also have "map budget (players st1) = spec_settle [offer] (map budget (players st))"
      by (rule tradeStep_Inr_D(2)[OF one])
    finally show ?case by simp
  next
    case 2
    from 2 obtain st1 where one: "tradeStep offer st = Inr st1"
      and rest: "forEach tradeStep offers st1 = Inr st'"
      by (auto split: sum.splits)
    show ?case
      by (rule budgetsOnly_trans[OF tradeStep_Inr_D(3)[OF one] Cons.IH(2)[OF rest]])
  next
    case 3
    from 3 obtain st1 where one: "tradeStep offer st = Inr st1"
      and rest: "forEach tradeStep offers st1 = Inr st'"
      by (auto split: sum.splits)
    show ?case
      by (rule trans[OF Cons.IH(3)[OF rest] tradeStep_Inr_D(4)[OF one]])
  next
    case 4
    from 4 obtain st1 where one: "tradeStep offer st = Inr st1"
      and rest: "forEach tradeStep offers st1 = Inr st'"
      by (auto split: sum.splits)
    show ?case
      by (rule trans[OF Cons.IH(4)[OF rest] tradeStep_Inr_D(5)[OF one]])
  next
    case 5
    from 5 obtain st1 where one: "tradeStep offer st = Inr st1"
      and rest: "forEach tradeStep offers st1 = Inr st'"
      by (auto split: sum.splits)
    have len: "length (players st1) = length (players st)"
      by (rule budgetsOnly_length[OF tradeStep_Inr_D(3)[OF one]])
    show ?case
      using Cons.IH(5)[OF rest] tradeStep_Inr_D(1)[OF one] len by simp
  }
qed

lemma processProducts_frame:
  assumes "processProducts gm rnd (startTurn rnd s) = Inr (s3, k3)"
  shows "tradeOffers s3 = tradeOffers s" "length (players s3) = length (players s)"
    "map rdInvestment (players s3) = map rdInvestment (players s)"
    "map facilityInvestment (players s3) = map facilityInvestment (players s)"
proof -
  have "forEach (productStep gm rnd) [0..<length (products s)] (fst (startTurn rnd s), snd (startTurn rnd s)) = Inr (s3, k3)"
    using assms by (simp add: processProducts_def startTurn_frame)
  from productsLoop_frame[OF this] have "productFrame (fst (startTurn rnd s)) s3" by simp
  then show "tradeOffers s3 = tradeOffers s" "length (players s3) = length (players s)"
    "map rdInvestment (players s3) = map rdInvestment (players s)"
    "map facilityInvestment (players s3) = map facilityInvestment (players s)"
    by (simp_all add: productFrame_def startTurn_frame)
qed

lemma settleTrades_Inr_D:
  assumes "settleTrades st = Inr s'"
  shows "map budget (players s') = spec_settle (tradeOffers st) (map budget (players st))"
    and "budgetsOnly (players st) (players s')"
    and "sum_list (map budget (players s')) = sum_list (map budget (players st))"
    and "\<forall>offer \<in> set (tradeOffers st). offer_from offer < length (players st)"
proof -
  from assms obtain s1 where loop: "forEach tradeStep (tradeOffers st) st = Inr s1"
    and s': "s' = s1\<lparr>tradeOffers := []\<rparr>"
    by (auto simp add: settleTrades_def split: sum.splits)
  have p: "players s' = players s1" unfolding s' by simp
  show "map budget (players s') = spec_settle (tradeOffers st) (map budget (players st))"
    unfolding p by (rule tradeLoop(1)[OF loop])
  show "budgetsOnly (players st) (players s')"
    unfolding p by (rule tradeLoop(2)[OF loop])
  show "sum_list (map budget (players s')) = sum_list (map budget (players st))"
    unfolding p by (rule tradeLoop(3)[OF loop])
  show "\<forall>offer \<in> set (tradeOffers st). offer_from offer < length (players st)"
    by (rule tradeLoop(5)[OF loop])
qed

lemma nextTurn_tradeState: "\<not> isl (nextTurn Normal rnd0 tradeState)"
  by code_simp

lemma nextTurn_tradeState_budgets:
  "(case nextTurn Normal rnd0 tradeState of Inl e \<Rightarrow> False | Inr s' \<Rightarrow> map budget (players s') = [1562, 2100])"
  by code_simp

lemma nextTurn_chainStates:
  "(case nextTurn Normal rnd0 chainState of
      Inl e \<Rightarrow> False | Inr s' \<Rightarrow> map budget (players s') = [1562, 50, 1762])
   \<and> (case nextTurn Normal rnd0 chainStateReversed of
      Inl e \<Rightarrow> False | Inr s' \<Rightarrow> map budget (players s') = [1562, 150, 1662])"
  by code_simp

section \<open>The ledger\<close>

lemma spec_ledger_gaps:
  "score (spec_ledger supp d stock qty u p) - ledgerScore (spec_ledger supp d stock qty u p)
     = score p - ledgerScore p"
  "expenses (spec_ledger supp d stock qty u p) - ledgerOperatingCost (spec_ledger supp d stock qty u p)
     = expenses p - ledgerOperatingCost p"
  by (simp_all add: spec_ledger_def ledgerScore_def ledgerOperatingCost_def)

lemma slotsPlayers_gaps:
  "map (\<lambda>p. score p - ledgerScore p) (slotsPlayers supp sf lf ef rnd k product ps)
     = map (\<lambda>p. score p - ledgerScore p) ps"
  "map (\<lambda>p. expenses p - ledgerOperatingCost p) (slotsPlayers supp sf lf ef rnd k product ps)
     = map (\<lambda>p. expenses p - ledgerOperatingCost p) ps"
  by (rule nth_equalityI; simp add: slotsPlayers_length slotsPlayers_nth spec_ledger_gaps)+

lemma productStep_gaps:
  assumes "productStep gm rnd pidx (s, k) = Inr (s2, k2)"
  shows "map (\<lambda>p. score p - ledgerScore p) (players s2) = map (\<lambda>p. score p - ledgerScore p) (players s)"
    and "map (\<lambda>p. expenses p - ledgerOperatingCost p) (players s2)
       = map (\<lambda>p. expenses p - ledgerOperatingCost p) (players s)"
proof -
  from productStep_Inr_D[OF assms] obtain supp aiOrder product2 where
    s2: "s2 = s\<lparr>products := (products s)[pidx := product2],
              players := slotsPlayers supp (seasonalFactors s (currentSeason s)) (lifecycleFactorOf (products s ! pidx))
                 (environmentalFactorOf s) rnd k (products s ! pidx) (players s),
              aiScore := aiScore s + aiNet (inventory product2 ! 0) (last (demandHistory product2)) aiOrder\<rparr>"
    by (elim exE conjE) (rule that, assumption+)
  show "map (\<lambda>p. score p - ledgerScore p) (players s2) = map (\<lambda>p. score p - ledgerScore p) (players s)"
    unfolding s2 by (simp add: slotsPlayers_gaps)
  show "map (\<lambda>p. expenses p - ledgerOperatingCost p) (players s2)
       = map (\<lambda>p. expenses p - ledgerOperatingCost p) (players s)"
    unfolding s2 by (simp add: slotsPlayers_gaps)
qed

lemma processProducts_gaps:
  assumes "processProducts gm rnd (startTurn rnd s) = Inr (s3, k3)"
  shows "map (\<lambda>p. score p - ledgerScore p) (players s3) = map (\<lambda>p. score p - ledgerScore p) (players s)"
    and "map (\<lambda>p. expenses p - ledgerOperatingCost p) (players s3)
       = map (\<lambda>p. expenses p - ledgerOperatingCost p) (players s)"
proof -
  let ?P = "\<lambda>st. map (\<lambda>p. score p - ledgerScore p) (players (fst st)) = map (\<lambda>p. score p - ledgerScore p) (players s)
     \<and> map (\<lambda>p. expenses p - ledgerOperatingCost p) (players (fst st))
       = map (\<lambda>p. expenses p - ledgerOperatingCost p) (players s)"
  have loop: "forEach (productStep gm rnd) [0..<length (products s)] (startTurn rnd s) = Inr (s3, k3)"
    using assms by (simp add: processProducts_def startTurn_frame)
  have "?P (s3, k3)"
  proof (rule forEach_invariant[OF loop, where P = ?P])
    show "?P (startTurn rnd s)" by (simp add: startTurn_frame)
  next
    fix x a b assume a: "?P a" and step: "productStep gm rnd x a = Inr b"
    obtain sa ka sb kb where ab: "a = (sa, ka)" "b = (sb, kb)" by (cases a, cases b) auto
    from productStep_gaps[of gm rnd x sa ka sb kb] step ab a show "?P b" by simp
  qed
  then show "map (\<lambda>p. score p - ledgerScore p) (players s3) = map (\<lambda>p. score p - ledgerScore p) (players s)"
    and "map (\<lambda>p. expenses p - ledgerOperatingCost p) (players s3)
       = map (\<lambda>p. expenses p - ledgerOperatingCost p) (players s)"
    by simp_all
qed

lemma budgetsOnly_gaps:
  assumes "budgetsOnly ps qs"
  shows "map (\<lambda>p. score p - ledgerScore p) qs = map (\<lambda>p. score p - ledgerScore p) ps"
    and "map (\<lambda>p. expenses p - ledgerOperatingCost p) qs = map (\<lambda>p. expenses p - ledgerOperatingCost p) ps"
proof -
  have e: "map (\<lambda>p. p\<lparr>budget := 0\<rparr>) qs = map (\<lambda>p. p\<lparr>budget := 0\<rparr>) ps"
    using assms by (simp add: budgetsOnly_def)
  have "map (\<lambda>p. score p - ledgerScore p) (map (\<lambda>p. p\<lparr>budget := 0\<rparr>) qs)
      = map (\<lambda>p. score p - ledgerScore p) (map (\<lambda>p. p\<lparr>budget := 0\<rparr>) ps)"
    unfolding e ..
  then show "map (\<lambda>p. score p - ledgerScore p) qs = map (\<lambda>p. score p - ledgerScore p) ps"
    by (simp add: comp_def ledgerScore_def)
  have "map (\<lambda>p. expenses p - ledgerOperatingCost p) (map (\<lambda>p. p\<lparr>budget := 0\<rparr>) qs)
      = map (\<lambda>p. expenses p - ledgerOperatingCost p) (map (\<lambda>p. p\<lparr>budget := 0\<rparr>) ps)"
    unfolding e ..
  then show "map (\<lambda>p. expenses p - ledgerOperatingCost p) qs = map (\<lambda>p. expenses p - ledgerOperatingCost p) ps"
    by (simp add: comp_def ledgerOperatingCost_def)
qed

text \<open>A whole turn and the ledger of one player.\<close>

lemma nextTurn_ledger:
  assumes "nextTurn gm rnd s = Inr s'" and "i < length (players s)"
  shows "length (players s') = length (players s)"
    and "score (players s' ! i) - ledgerScore (players s' ! i) = score (players s ! i) - ledgerScore (players s ! i)"
    and "expenses (players s' ! i) - ledgerOperatingCost (players s' ! i)
       = expenses (players s ! i) - ledgerOperatingCost (players s ! i)
         + (rdInvestment (players s ! i) + facilityInvestment (players s ! i))"
proof -
  from nextTurn_Inr_D[OF assms(1)] obtain s3 k3 where
    pp: "processProducts gm rnd (startTurn rnd s) = Inr (s3, k3)"
    and st: "settleTrades (applyInvestments s3) = Inr s'"
    by blast
  note fr = processProducts_frame[OF pp]
  note g3 = processProducts_gaps[OF pp]
  have bo: "budgetsOnly (players (applyInvestments s3)) (players s')"
    by (rule settleTrades_Inr_D(2)[OF st])
  note g' = budgetsOnly_gaps[OF bo]
  have i3: "i < length (players s3)" using assms(2) fr(2) by simp
  show len: "length (players s') = length (players s)"
    using budgetsOnly_length[OF bo] fr(2) by (simp add: applyInvestments_frame)
  have i': "i < length (players s')" using assms(2) len by simp
  have ia: "i < length (players (applyInvestments s3))" using i3 by (simp add: applyInvestments_frame)
  have a1: "score (players s' ! i) - ledgerScore (players s' ! i)
      = score (players (applyInvestments s3) ! i) - ledgerScore (players (applyInvestments s3) ! i)"
    using arg_cong[OF g'(1), of "\<lambda>xs. xs ! i"] i' ia by simp
  have a2: "expenses (players s' ! i) - ledgerOperatingCost (players s' ! i)
      = expenses (players (applyInvestments s3) ! i) - ledgerOperatingCost (players (applyInvestments s3) ! i)"
    using arg_cong[OF g'(2), of "\<lambda>xs. xs ! i"] i' ia by simp
  have b1: "score (players (applyInvestments s3) ! i) - ledgerScore (players (applyInvestments s3) ! i)
      = score (players s3 ! i) - ledgerScore (players s3 ! i)"
    using i3 by (simp add: applyInvestments_def ledgerScore_def)
  have b2: "expenses (players (applyInvestments s3) ! i) - ledgerOperatingCost (players (applyInvestments s3) ! i)
      = expenses (players s3 ! i) - ledgerOperatingCost (players s3 ! i)
        + (rdInvestment (players s3 ! i) + facilityInvestment (players s3 ! i))"
    using i3 by (simp add: applyInvestments_def ledgerOperatingCost_def)
  have c1: "score (players s3 ! i) - ledgerScore (players s3 ! i) = score (players s ! i) - ledgerScore (players s ! i)"
    using arg_cong[OF g3(1), of "\<lambda>xs. xs ! i"] i3 assms(2) by simp
  have c2: "expenses (players s3 ! i) - ledgerOperatingCost (players s3 ! i)
      = expenses (players s ! i) - ledgerOperatingCost (players s ! i)"
    using arg_cong[OF g3(2), of "\<lambda>xs. xs ! i"] i3 assms(2) by simp
  have c3: "rdInvestment (players s3 ! i) = rdInvestment (players s ! i)"
    using arg_cong[OF fr(3), of "\<lambda>xs. xs ! i"] i3 assms(2) by simp
  have c4: "facilityInvestment (players s3 ! i) = facilityInvestment (players s ! i)"
    using arg_cong[OF fr(4), of "\<lambda>xs. xs ! i"] i3 assms(2) by simp
  show "score (players s' ! i) - ledgerScore (players s' ! i) = score (players s ! i) - ledgerScore (players s ! i)"
    unfolding a1 b1 c1 ..
  show "expenses (players s' ! i) - ledgerOperatingCost (players s' ! i)
       = expenses (players s ! i) - ledgerOperatingCost (players s ! i)
         + (rdInvestment (players s ! i) + facilityInvestment (players s ! i))"
    unfolding a2 b2 c2 c3 c4 ..
qed

lemma ledgerInvariant_players:
  assumes "ledgerInvariant s applied" and "players s' = players s"
  shows "ledgerInvariant s' applied"
  using assms by (simp add: ledgerInvariant_def)

lemma ledgerInvariant_initial: "ledgerInvariant initialState [0]"
  by (simp add: ledgerInvariant_def initialState_def newPlayer_def ledgerScore_def ledgerOperatingCost_def)

lemma handleInvestmentChange_nth:
  assumes "i < length (players s)"
  shows "players (handleInvestmentChange playerId type0 val s) ! i =
     (if i = playerId
      then (if type0 = Rd then (players s ! i)\<lparr>rdInvestment := val\<rparr>
            else (players s ! i)\<lparr>facilityInvestment := val\<rparr>)
      else players s ! i)"
  using assms by (simp add: handleInvestmentChange_def nth_enumerate_eq)

lemma ledgerInvariant_investmentChange:
  assumes "ledgerInvariant s applied"
  shows "ledgerInvariant (handleInvestmentChange playerId type0 val s) applied"
proof -
  have len: "length (players (handleInvestmentChange playerId type0 val s)) = length (players s)"
    by (simp add: handleInvestmentChange_def)
  have "score (players (handleInvestmentChange playerId type0 val s) ! i)
          = ledgerScore (players (handleInvestmentChange playerId type0 val s) ! i)
        \<and> expenses (players (handleInvestmentChange playerId type0 val s) ! i)
          = ledgerOperatingCost (players (handleInvestmentChange playerId type0 val s) ! i) + applied ! i"
    if "i < length (players s)" for i
  proof -
    have "score (players s ! i) = ledgerScore (players s ! i)
        \<and> expenses (players s ! i) = ledgerOperatingCost (players s ! i) + applied ! i"
      using assms that by (simp add: ledgerInvariant_def)
    then show ?thesis
      unfolding handleInvestmentChange_nth[OF that]
      by (auto simp add: ledgerScore_def ledgerOperatingCost_def)
  qed
  then show ?thesis
    using assms len by (simp add: ledgerInvariant_def)
qed

lemma ledgerInvariant_playerCount:
  assumes "ledgerInvariant s applied"
  shows "ledgerInvariant (setPlayerCount n s) (take n applied @ replicate (n - length applied) 0)"
proof -
  let ?m = "length (players s)"
  have la: "length applied = ?m" using assms by (simp add: ledgerInvariant_def)
  have old: "score (players s ! i) = ledgerScore (players s ! i)
        \<and> expenses (players s ! i) = ledgerOperatingCost (players s ! i) + applied ! i"
    if "i < ?m" for i
    using assms that by (simp add: ledgerInvariant_def)
  have new: "score newPlayer = ledgerScore newPlayer \<and> expenses newPlayer = ledgerOperatingCost newPlayer + 0"
    by (simp add: newPlayer_def ledgerScore_def ledgerOperatingCost_def)
  consider (grow) "?m < n" | (shrink) "n < ?m" | (same) "n = ?m" by linarith
  then show ?thesis
  proof cases
    case grow
    then have p: "players (setPlayerCount n s) = players s @ replicate (n - ?m) newPlayer"
      by (simp add: setPlayerCount_def Let_def nat_diff_distrib')
    have g: "take n applied @ replicate (n - length applied) 0 = applied @ replicate (n - ?m) 0"
      using grow la by simp
    show ?thesis
      unfolding ledgerInvariant_def p g
      using la old new by (auto simp add: nth_append)
  next
    case shrink
    then have p: "players (setPlayerCount n s) = take n (players s)"
      by (simp add: setPlayerCount_def Let_def)
    have g: "take n applied @ replicate (n - length applied) 0 = take n applied"
      using shrink la by simp
    show ?thesis
      unfolding ledgerInvariant_def p g
      using la old shrink by simp
  next
    case same
    then have p: "players (setPlayerCount n s) = players s"
      by (simp add: setPlayerCount_def Let_def)
    have g: "take n applied @ replicate (n - length applied) 0 = applied"
      using same la by simp
    show ?thesis
      unfolding g by (rule ledgerInvariant_players[OF assms p])
  qed
qed

lemma nextTurn_length:
  assumes "nextTurn gm rnd s = Inr s'"
  shows "length (players s') = length (players s)"
proof -
  from nextTurn_Inr_D[OF assms] obtain s3 k3 where
    pp: "processProducts gm rnd (startTurn rnd s) = Inr (s3, k3)"
    and st: "settleTrades (applyInvestments s3) = Inr s'"
    by blast
  show ?thesis
    using budgetsOnly_length[OF settleTrades_Inr_D(2)[OF st]] processProducts_frame(2)[OF pp]
    by (simp add: applyInvestments_frame)
qed

lemma ledgerInvariant_turn:
  assumes "ledgerInvariant s applied" and "nextTurn gm rnd s = Inr s'"
  shows "ledgerInvariant s' (map2 (\<lambda>p x. x + (rdInvestment p + facilityInvestment p)) (players s) applied)"
proof -
  let ?g = "map2 (\<lambda>p x. x + (rdInvestment p + facilityInvestment p)) (players s) applied"
  have la: "length applied = length (players s)" using assms(1) by (simp add: ledgerInvariant_def)
  have lg: "length ?g = length (players s)" using la by simp
  have "score (players s' ! i) = ledgerScore (players s' ! i)
      \<and> expenses (players s' ! i) = ledgerOperatingCost (players s' ! i) + ?g ! i"
    if i: "i < length (players s)" for i
  proof -
    have old: "score (players s ! i) = ledgerScore (players s ! i)"
      "expenses (players s ! i) = ledgerOperatingCost (players s ! i) + applied ! i"
      using assms(1) i by (simp_all add: ledgerInvariant_def)
    have gi: "?g ! i = applied ! i + (rdInvestment (players s ! i) + facilityInvestment (players s ! i))"
      using i la by simp
    from nextTurn_ledger(2,3)[OF assms(2) i] old gi show ?thesis by simp
  qed
  then show ?thesis
    unfolding ledgerInvariant_def using lg nextTurn_length[OF assms(2)] by simp
qed

lemma reachable_ledgerInvariant: "reachable s applied \<Longrightarrow> ledgerInvariant s applied"
proof (induction rule: reachable.induct)
  case initial
  show ?case by (rule ledgerInvariant_initial)
next
  case (orderChange s applied playerId productId val)
  from orderChange.IH show ?case by (rule ledgerInvariant_players) (simp add: handleOrderChange_def)
next
  case (investmentChange s applied playerId type0 val)
  from investmentChange.IH show ?case by (rule ledgerInvariant_investmentChange)
next
  case (supplierChange s applied playerId productId supplierId)
  from supplierChange.IH show ?case by (rule ledgerInvariant_players) (simp add: handleSupplierChange_def)
next
  case (tradeOffer s applied from0 to0)
  from tradeOffer.IH show ?case by (rule ledgerInvariant_players) (simp add: handleTradeOffer_def)
next
  case (playerCount s applied n)
  from playerCount.IH show ?case by (rule ledgerInvariant_playerCount)
next
  case (turn s applied gameMode rnd s')
  from turn.IH turn.hyps(2) show ?case by (rule ledgerInvariant_turn)
qed

lemma nextTurn_investedState: "\<not> isl (nextTurn Normal rnd0 investedState)"
  by code_simp

section \<open>Turns that return\<close>

lemma productStep_total:
  assumes "slotsAligned s" and "pidx < length (products s)"
  shows "\<exists>s2 k2. productStep gm rnd pidx (s, k) = Inr (s2, k2) \<and> slotsAligned s2
           \<and> length (products s2) = length (products s) \<and> length (players s2) = length (players s)
           \<and> tradeOffers s2 = tradeOffers s"
proof -
  let ?n = "length (players s)"
  let ?product = "products s ! pidx"
  let ?sf = "seasonalFactors s (currentSeason s)"
  let ?lf = "growth (productLifecycle (lifecycle ?product)) - decline (productLifecycle (lifecycle ?product))"
  let ?ef = "case environmentalEvent s of Some ev \<Rightarrow> 1 + impact ev | None \<Rightarrow> 1"
  have mem: "?product \<in> set (products s)" using assms(2) by simp
  have ne: "players s \<noteq> []" and pos: "0 < ?n" using assms(1) by (simp_all add: slotsAligned_def)
  have li: "length (inventory ?product) = ?n" and lo: "length (orders ?product) = ?n"
    using assms(1) mem by (simp_all add: slotsAligned_def)
  obtain supp where f: "find (\<lambda>x. supplier_id x = supplier ?product) suppliers = Some supp"
    using assms(1) mem by (auto simp add: slotsAligned_def)
  let ?product1 = "slotsProduct supp ?sf ?lf ?ef ?n ?product"
  let ?players1 = "slotsPlayers supp ?sf ?lf ?ef rnd k ?product (players s)"
  have loop: "forEach (playerStep rnd 20 ?sf ?lf ?ef) [0..<?n] (?product, players s, k)
      = Inr (?product1, ?players1, k + ?n)"
    by (rule playersLoop_slots[OF f]) (simp_all add: li lo)
  let ?product2 = "fst (lifecycleUpdate rnd (?product1, k + ?n))"
  let ?st = "s\<lparr>products := (products s)[pidx := ?product2], players := ?players1\<rparr>"
  have p2: "length (inventory ?product2) = ?n" "length (orders ?product2) = ?n"
    "supplier ?product2 = supplier ?product" "product_id ?product2 = product_id ?product"
    "demandHistory ?product2 \<noteq> []" "inventory ?product2 \<noteq> []"
    using pos li lo by (simp_all add: lifecycleUpdate_frame slotsProduct_def)
  have all: "length (inventory p) = ?n \<and> length (orders p) = ?n
      \<and> find (\<lambda>x. supplier_id x = supplier p) suppliers \<noteq> None"
    if "p \<in> set (products ?st)" for p
  proof -
    from that have "p = ?product2 \<or> p \<in> set (products s)"
      using set_update_subset_insert[of "products s" pidx ?product2] by auto
    then show ?thesis
    proof
      assume "p = ?product2"
      then show ?thesis using p2 f by simp
    next
      assume "p \<in> set (products s)"
      then show ?thesis using assms(1) by (simp add: slotsAligned_def)
    qed
  qed
  have mem2: "?product2 \<in> set (products ?st)"
    using assms(2) by (simp add: set_update_memI)
  have "find (\<lambda>p. product_id p = product_id ?product2) (products ?st) \<noteq> None"
    using mem2 unfolding find_None_iff by blast
  then obtain q where q: "find (\<lambda>p. product_id p = product_id ?product2) (products ?st) = Some q"
    by auto
  have qmem: "q \<in> set (products ?st)"
    using q unfolding find_Some_iff by (metis nth_mem)
  have qi: "inventory q \<noteq> []" using all[OF qmem] pos by auto
  have pl: "players ?st \<noteq> []" using ne by (simp add: slotsPlayers_def)
  have strat: "aiStrategy ?st (product_id ?product2) (difficulty gm)
      = Inr (spec_aiOrder ?st q (difficulty gm))"
    by (rule aiStrategy_found[OF q pl qi])
  let ?s2 = "?st\<lparr>aiScore := aiScore ?st
      + aiNet (inventory ?product2 ! 0) (last (demandHistory ?product2)) (spec_aiOrder ?st q (difficulty gm))\<rparr>"
  have ai: "aiPlayer gm ?product2 ?st = Inr ?s2"
    using p2(5,6) by (simp add: aiPlayer_def strat Let_def aiNet_def)
  have step: "productStep gm rnd pidx (s, k) = Inr (?s2, snd (lifecycleUpdate rnd (?product1, k + ?n)))"
    by (simp add: productStep_def Let_def loop case_prod_beta ai)
  have al: "slotsAligned ?s2"
    unfolding slotsAligned_def using all pl by (simp add: slotsPlayers_length)
  show ?thesis
    by (rule exI[of _ ?s2], rule exI[of _ "snd (lifecycleUpdate rnd (?product1, k + ?n))"], intro conjI)
       (fact step al | simp add: slotsPlayers_length)+
qed

lemma productsLoop_total:
  assumes "slotsAligned s" and "\<forall>x \<in> set xs. x < length (products s)"
  shows "\<exists>s3 k3. forEach (productStep gm rnd) xs (s, k) = Inr (s3, k3) \<and> slotsAligned s3
           \<and> length (players s3) = length (players s) \<and> tradeOffers s3 = tradeOffers s"
  using assms
proof (induction xs arbitrary: s k)
  case Nil
  then show ?case by simp
next
  case (Cons x xs)
  have x: "x < length (products s)" using Cons.prems(2) by simp
  from productStep_total[OF Cons.prems(1) x, of gm rnd k] obtain s2 k2 where
    step: "productStep gm rnd x (s, k) = Inr (s2, k2)" and al: "slotsAligned s2"
    and len: "length (products s2) = length (products s)" "length (players s2) = length (players s)"
    and tr: "tradeOffers s2 = tradeOffers s"
    by blast
  have rest: "\<forall>y \<in> set xs. y < length (products s2)" using Cons.prems(2) len by simp
  from Cons.IH[OF al rest, of k2] obtain s3 k3 where
    r: "forEach (productStep gm rnd) xs (s2, k2) = Inr (s3, k3)" and al3: "slotsAligned s3"
    and len3: "length (players s3) = length (players s2)" and tr3: "tradeOffers s3 = tradeOffers s2"
    by blast
  have run: "forEach (productStep gm rnd) (x # xs) (s, k) = Inr (s3, k3)"
    by (simp add: step r)
  show ?case
    by (rule exI[of _ s3], rule exI[of _ k3], intro conjI) (fact run al3 | simp add: len3 len tr3 tr)+
qed

lemma tradeStep_total:
  assumes "offer_from offer < length (players st)" and "offer_to offer < length (players st)"
  shows "\<exists>st'. tradeStep offer st = Inr st'"
  using assms by (simp add: tradeStep_def Let_def)

lemma tradeLoop_total:
  assumes "\<forall>offer \<in> set offers. offer_from offer < length (players st) \<and> offer_to offer < length (players st)"
  shows "\<exists>st'. forEach tradeStep offers st = Inr st'"
  using assms
proof (induction offers arbitrary: st)
  case Nil
  then show ?case by simp
next
  case (Cons offer offers)
  from tradeStep_total[of offer st] Cons.prems obtain st1 where one: "tradeStep offer st = Inr st1"
    by auto
  have len: "length (players st1) = length (players st)"
    by (rule budgetsOnly_length[OF tradeStep_Inr_D(3)[OF one]])
  from Cons.IH[of st1] Cons.prems len obtain st' where "forEach tradeStep offers st1 = Inr st'"
    by auto
  then show ?case using one by simp
qed

lemma wellFormed_tradeState: "wellFormed tradeState"
  by (simp add: wellFormed_def tradeState_def handleTradeOffer_def setPlayerCount_def Let_def
      initialState_def suppliers_def)

lemma spec_ledger_budget: "budget (spec_ledger supp d stock qty u p) \<le> 2000"
  by (simp add: spec_ledger_def)

section \<open>The turn as a fold over the products\<close>

lemma turnPrefix_0: "turnPrefix gm rnd s 0 = Inr (startTurn rnd s)"
  by (simp add: turnPrefix_def)

lemma turnPrefix_Suc_Inr:
  "turnPrefix gm rnd s (Suc j) = Inr st2 \<longleftrightarrow>
     (\<exists>st1. turnPrefix gm rnd s j = Inr st1 \<and> productStep gm rnd j st1 = Inr st2)"
  unfolding turnPrefix_def by (simp only: upt_Suc le0 if_True forEach_snoc_Inr)

lemma turnPrefix_frame:
  assumes "turnPrefix gm rnd s j = Inr (sj, kj)"
  shows "productFrame (fst (startTurn rnd s)) sj" and "j \<le> i \<Longrightarrow> products sj ! i = products s ! i"
proof -
  have run: "forEach (productStep gm rnd) [0..<j] (fst (startTurn rnd s), snd (startTurn rnd s)) = Inr (sj, kj)"
    using assms by (simp add: turnPrefix_def)
  from productsLoop_frame[OF run] show "productFrame (fst (startTurn rnd s)) sj" by simp
  from productsLoop_frame[OF run] show "j \<le> i \<Longrightarrow> products sj ! i = products s ! i"
    by (simp add: startTurn_frame)
qed

lemma processProducts_turnPrefix:
  "processProducts gm rnd (startTurn rnd s) = turnPrefix gm rnd s (length (products s))"
  by (simp add: processProducts_def turnPrefix_def startTurn_frame)

lemma turnPrefix_total:
  assumes "slotsAligned s" and "j \<le> length (products s)"
  shows "\<exists>sj kj. turnPrefix gm rnd s j = Inr (sj, kj)"
proof -
  let ?s0 = "fst (startTurn rnd s)"
  have al0: "slotsAligned ?s0"
    using assms(1) by (simp add: slotsAligned_def startTurn_frame)
  have "\<forall>x \<in> set [0..<j]. x < length (products ?s0)"
    using assms(2) by (simp add: startTurn_frame)
  from productsLoop_total[OF al0 this, of gm rnd "snd (startTurn rnd s)"] show ?thesis
    by (auto simp add: turnPrefix_def)
qed

lemma turnPrefix_step:
  assumes a: "turnPrefix gm rnd s j = Inr (s1, k1)" and b: "productStep gm rnd j (s1, k1) = Inr (s2, k2)"
    and j: "j < length (products s)"
  defines "product \<equiv> products s ! j"
  defines "s0 \<equiv> fst (startTurn rnd s)"
  defines "sf \<equiv> seasonalFactors s0 (currentSeason s0)"
  defines "lf \<equiv> lifecycleFactorOf (products s ! j)"
  defines "ef \<equiv> environmentalFactorOf s0"
  shows "\<exists>supp aiOrder product2.
      find (\<lambda>x. supplier_id x = supplier product) suppliers = Some supp
    \<and> length (players s1) = length (players s) \<and> players s \<noteq> []
    \<and> product2 = fst (lifecycleUpdate rnd (slotsProduct supp sf lf ef (length (players s)) product, k1 + length (players s)))
    \<and> products s2 ! j = product2
    \<and> players s2 = slotsPlayers supp sf lf ef rnd k1 product (players s1)
    \<and> aiStrategy s2 (product_id product) (difficulty gm) = Inr aiOrder
    \<and> aiScore s2 = aiScore s1 + aiNet (inventory product2 ! 0) (last (demandHistory product2)) aiOrder"
proof -
  from turnPrefix_frame[OF a] have fr1: "productFrame s0 s1" and same1: "products s1 ! j = products s ! j"
    by (simp_all add: s0_def)
  have p1: "products s1 ! j = product"
    using same1 by (simp add: product_def)
  have len1: "length (players s1) = length (players s)" "length (products s1) = length (products s)"
    using fr1 by (simp_all add: productFrame_def s0_def startTurn_frame)
  have fac1: "seasonalFactors s1 (currentSeason s1) = sf" "environmentalFactorOf s1 = ef"
    using fr1 by (simp_all add: productFrame_def sf_def ef_def environmentalFactorOf_def)
  have lf1: "lifecycleFactorOf product = lf"
    by (simp add: lf_def product_def)
  from productStep_Inr_D[OF b, unfolded p1 fac1 lf1] obtain supp aiOrder product2 where
    f: "find (\<lambda>x. supplier_id x = supplier product) suppliers = Some supp"
    and ne: "players s1 \<noteq> []"
    and p2: "product2 = fst (lifecycleUpdate rnd (slotsProduct supp sf lf ef (length (players s1)) product, k1 + length (players s1)))"
    and strat: "aiStrategy s2 (product_id product) (difficulty gm) = Inr aiOrder"
    and s2: "s2 = s1\<lparr>products := (products s1)[j := product2],
              players := slotsPlayers supp sf lf ef rnd k1 product (players s1),
              aiScore := aiScore s1 + aiNet (inventory product2 ! 0) (last (demandHistory product2)) aiOrder\<rparr>"
    by (elim exE conjE) (rule that, assumption+)
  have ps2: "products s2 ! j = product2"
    unfolding s2 using j len1 by simp
  have ne': "players s \<noteq> []" using ne len1 by auto
  note p2' = p2[unfolded len1(1)]
  have pl2: "players s2 = slotsPlayers supp sf lf ef rnd k1 product (players s1)"
    unfolding s2 by simp
  have ai2: "aiScore s2 = aiScore s1 + aiNet (inventory product2 ! 0) (last (demandHistory product2)) aiOrder"
    unfolding s2 by simp
  show ?thesis
    by (rule exI[of _ supp], rule exI[of _ aiOrder], rule exI[of _ product2], intro conjI)
      (fact f len1(1) ne' p2' ps2 pl2 strat ai2)+
qed

text \<open>One product's step seen from a slot, in the step amounts of the turn.\<close>

lemma turnPrefix_step_slot:
  assumes a: "turnPrefix gm rnd s j = Inr (s1, k1)" and b: "productStep gm rnd j (s1, k1) = Inr (s2, k2)"
    and j: "j < length (products s)"
    and f: "find (\<lambda>x. supplier_id x = supplier (products s ! j)) suppliers = Some (supps ! j)"
    and slot: "slot < length (players s)"
  shows "players s2 ! slot =
           spec_ledger (supps ! j) (realizedDemand rnd s j slot) (inventory (products s ! j) ! slot)
             (orders (products s ! j) ! slot) (rnd (k1 + slot)) (players s1 ! slot)"
    and "inventory (products s2 ! j) ! slot = stepInventory supps rnd s slot j"
    and "orders (products s2 ! j) ! slot = 0"
    and "last (demandHistory (products s2 ! j)) = realizedDemand rnd s j (length (players s) - 1)"
proof -
  let ?s0 = "fst (startTurn rnd s)"
  let ?sf = "seasonalFactors ?s0 (currentSeason ?s0)"
  let ?lf = "lifecycleFactorOf (products s ! j)"
  let ?ef = "environmentalFactorOf ?s0"
  let ?product = "products s ! j"
  from turnPrefix_step[OF a b j] obtain supp aiOrder product2 where
    f': "find (\<lambda>x. supplier_id x = supplier ?product) suppliers = Some supp"
    and len: "length (players s1) = length (players s)" and ne: "players s \<noteq> []"
    and p2: "product2 = fst (lifecycleUpdate rnd (slotsProduct supp ?sf ?lf ?ef (length (players s)) ?product, k1 + length (players s)))"
    and ps2: "products s2 ! j = product2"
    and pl2: "players s2 = slotsPlayers supp ?sf ?lf ?ef rnd k1 ?product (players s1)"
    by (elim exE conjE) (rule that, assumption+)
  have supp: "supp = supps ! j" using f f' by simp
  have slot1: "slot < length (players s1)" using slot len by simp
  show "players s2 ! slot =
           spec_ledger (supps ! j) (realizedDemand rnd s j slot) (inventory ?product ! slot)
             (orders ?product ! slot) (rnd (k1 + slot)) (players s1 ! slot)"
    unfolding pl2 realizedDemand_eq supp[symmetric] by (rule slotsPlayers_nth[OF slot1])
  show "inventory (products s2 ! j) ! slot = stepInventory supps rnd s slot j"
    unfolding ps2 p2 lifecycleUpdate_frame realizedDemand_eq stepInventory_def supp[symmetric]
    by (rule slotsProduct_nth(1)[OF slot])
  show "orders (products s2 ! j) ! slot = 0"
    unfolding ps2 p2 lifecycleUpdate_frame by (rule slotsProduct_nth(2)[OF slot])
  have pos: "0 < length (players s)" using ne by simp
  then have ne0: "[0..<length (players s)] \<noteq> []" by simp
  show "last (demandHistory (products s2 ! j)) = realizedDemand rnd s j (length (players s) - 1)"
    unfolding ps2 p2 lifecycleUpdate_frame slotsProduct_demandHistory realizedDemand_eq
    using ne0 by (simp add: last_map last_upt[OF pos] del: upt_eq_Nil_conv)
qed

lemma turnPrefix_ledger:
  assumes supps: "\<forall>i < length (products s). find (\<lambda>x. supplier_id x = supplier (products s ! i)) suppliers = Some (supps ! i)"
    and slot: "slot < length (players s)"
  shows "j \<le> length (products s) \<Longrightarrow> turnPrefix gm rnd s j = Inr (sj, kj) \<Longrightarrow>
      revenue (players sj ! slot)
        = foldl (\<lambda>a i. a + stepRevenue supps rnd s slot i) (revenue (players s ! slot)) [0..<j]
    \<and> holdingCost (players sj ! slot)
        = foldl (\<lambda>a i. a + stepHoldingCost supps rnd s slot i) (holdingCost (players s ! slot)) [0..<j]
    \<and> stockoutPenalty (players sj ! slot)
        = foldl (\<lambda>a i. a + stepStockoutPenalty rnd s slot i) (stockoutPenalty (players s ! slot)) [0..<j]
    \<and> orderCost (players sj ! slot)
        = foldl (\<lambda>a i. a + stepOrderCost supps s slot i) (orderCost (players s ! slot)) [0..<j]
    \<and> budget (players sj ! slot)
        = foldl (\<lambda>a i. min (a - stepOrderCost supps s slot i + stepRevenue supps rnd s slot i) 2000)
            (budget (players s ! slot)) [0..<j]"
proof (induction j arbitrary: sj kj)
  case 0
  then have "sj = fst (startTurn rnd s)" by (simp add: turnPrefix_0)
  then show ?case by (simp add: startTurn_frame)
next
  case (Suc j)
  from Suc.prems(2) obtain st1 where
    a: "turnPrefix gm rnd s j = Inr st1" and b: "productStep gm rnd j st1 = Inr (sj, kj)"
    unfolding turnPrefix_Suc_Inr by blast
  obtain s1 k1 where st1: "st1 = (s1, k1)" by (cases st1) auto
  have j: "j < length (products s)" using Suc.prems(1) by simp
  have f: "find (\<lambda>x. supplier_id x = supplier (products s ! j)) suppliers = Some (supps ! j)"
    using supps j by simp
  note ih = Suc.IH[OF _ a[unfolded st1]]
  have ih': "revenue (players s1 ! slot)
        = foldl (\<lambda>a i. a + stepRevenue supps rnd s slot i) (revenue (players s ! slot)) [0..<j]"
    "holdingCost (players s1 ! slot)
        = foldl (\<lambda>a i. a + stepHoldingCost supps rnd s slot i) (holdingCost (players s ! slot)) [0..<j]"
    "stockoutPenalty (players s1 ! slot)
        = foldl (\<lambda>a i. a + stepStockoutPenalty rnd s slot i) (stockoutPenalty (players s ! slot)) [0..<j]"
    "orderCost (players s1 ! slot)
        = foldl (\<lambda>a i. a + stepOrderCost supps s slot i) (orderCost (players s ! slot)) [0..<j]"
    "budget (players s1 ! slot)
        = foldl (\<lambda>a i. min (a - stepOrderCost supps s slot i + stepRevenue supps rnd s slot i) 2000)
            (budget (players s ! slot)) [0..<j]"
    using ih j by simp_all
  note p = turnPrefix_step_slot(1)[OF a[unfolded st1] b[unfolded st1] j f slot]
  have step: "revenue (players sj ! slot) = revenue (players s1 ! slot) + stepRevenue supps rnd s slot j"
    "holdingCost (players sj ! slot) = holdingCost (players s1 ! slot) + stepHoldingCost supps rnd s slot j"
    "stockoutPenalty (players sj ! slot) = stockoutPenalty (players s1 ! slot) + stepStockoutPenalty rnd s slot j"
    "orderCost (players sj ! slot) = orderCost (players s1 ! slot) + stepOrderCost supps s slot j"
    "budget (players sj ! slot)
       = min (budget (players s1 ! slot) - stepOrderCost supps s slot j + stepRevenue supps rnd s slot j) 2000"
    unfolding p
    by (simp_all add: spec_ledger_def stepRevenue_def stepHoldingCost_def stepStockoutPenalty_def stepOrderCost_def)
  have up: "[0..<Suc j] = [0..<j] @ [j]" by simp
  show ?case
    unfolding up foldl_append foldl.simps ih'[symmetric] by (intro conjI) (fact step)+
qed

lemma turnPrefix_draws:
  "j \<le> length (products s) \<Longrightarrow> turnPrefix gm rnd s j = Inr (sj, kj) \<Longrightarrow>
     kj = snd (startTurn rnd s) + j * (length (players s) + 1)"
proof (induction j arbitrary: sj kj)
  case 0
  then show ?case by (simp add: turnPrefix_0)
next
  case (Suc j)
  from Suc.prems(2) obtain st1 where
    a: "turnPrefix gm rnd s j = Inr st1" and b: "productStep gm rnd j st1 = Inr (sj, kj)"
    unfolding turnPrefix_Suc_Inr by blast
  obtain s1 k1 where st1: "st1 = (s1, k1)" by (cases st1) auto
  have j: "j \<le> length (products s)" using Suc.prems(1) by simp
  have k1: "k1 = snd (startTurn rnd s) + j * (length (players s) + 1)"
    by (rule Suc.IH[OF j a[unfolded st1]])
  have len: "length (players s1) = length (players s)"
    using turnPrefix_frame(1)[OF a[unfolded st1]] by (simp add: productFrame_def startTurn_frame)
  from productStep_Inr_D[OF b[unfolded st1]] have "kj = k1 + length (players s1) + 1"
    by (elim exE conjE)
  then show ?case unfolding k1 len by simp
qed

lemma turnPrefix_players:
  assumes supps: "\<forall>i < length (products s). find (\<lambda>x. supplier_id x = supplier (products s ! i)) suppliers = Some (supps ! i)"
    and slot: "slot < length (players s)"
  shows "j \<le> length (products s) \<Longrightarrow> turnPrefix gm rnd s j = Inr (sj, kj) \<Longrightarrow>
      players sj ! slot
        = foldl (\<lambda>p i. spec_ledger (supps ! i) (realizedDemand rnd s i slot) (inventory (products s ! i) ! slot)
                    (orders (products s ! i) ! slot)
                    (rnd (snd (startTurn rnd s) + i * (length (players s) + 1) + slot)) p)
            (players s ! slot) [0..<j]"
proof (induction j arbitrary: sj kj)
  case 0
  then have "sj = fst (startTurn rnd s)" by (simp add: turnPrefix_0)
  then show ?case by (simp add: startTurn_frame)
next
  case (Suc j)
  from Suc.prems(2) obtain st1 where
    a: "turnPrefix gm rnd s j = Inr st1" and b: "productStep gm rnd j st1 = Inr (sj, kj)"
    unfolding turnPrefix_Suc_Inr by blast
  obtain s1 k1 where st1: "st1 = (s1, k1)" by (cases st1) auto
  have j: "j < length (products s)" and j': "j \<le> length (products s)" using Suc.prems(1) by simp_all
  have f: "find (\<lambda>x. supplier_id x = supplier (products s ! j)) suppliers = Some (supps ! j)"
    using supps j by simp
  note ih = Suc.IH[OF j' a[unfolded st1]]
  note k1 = turnPrefix_draws[OF j' a[unfolded st1]]
  note p = turnPrefix_step_slot(1)[OF a[unfolded st1] b[unfolded st1] j f slot]
  have up: "[0..<Suc j] = [0..<j] @ [j]" by simp
  show ?case
    unfolding up foldl_append foldl.simps ih[symmetric] k1[symmetric] by (rule p)
qed

lemma list_choice:
  "(\<forall>i < n. \<exists>x. P i x) \<Longrightarrow> \<exists>xs. length xs = n \<and> (\<forall>i < n. P i (xs ! i))"
proof (induction n)
  case 0
  show ?case by simp
next
  case (Suc n)
  then obtain xs where xs: "length xs = n" "\<forall>i < n. P i (xs ! i)" by auto
  from Suc.prems obtain x where x: "P n x" by auto
  have "length (xs @ [x]) = Suc n \<and> (\<forall>i < Suc n. P i ((xs @ [x]) ! i))"
    using xs x by (auto simp add: nth_append less_Suc_eq)
  then show ?case by blast
qed

lemma slotsAligned_supps:
  assumes "slotsAligned s"
  shows "\<exists>supps. length supps = length (products s)
     \<and> (\<forall>i < length (products s). find (\<lambda>x. supplier_id x = supplier (products s ! i)) suppliers = Some (supps ! i))"
proof -
  have "\<forall>i < length (products s). \<exists>x. find (\<lambda>x. supplier_id x = supplier (products s ! i)) suppliers = Some x"
  proof (intro allI impI)
    fix i assume "i < length (products s)"
    then have "products s ! i \<in> set (products s)" by simp
    with assms have "find (\<lambda>x. supplier_id x = supplier (products s ! i)) suppliers \<noteq> None"
      unfolding slotsAligned_def by blast
    then show "\<exists>x. find (\<lambda>x. supplier_id x = supplier (products s ! i)) suppliers = Some x" by auto
  qed
  from list_choice[OF this] show ?thesis .
qed

lemma turnPrefix_aiOrders:
  assumes "slotsAligned s"
  shows "\<exists>aiOrders. length aiOrders = length (products s)
     \<and> (\<forall>j < length (products s). \<exists>s2 k2. turnPrefix gm rnd s (Suc j) = Inr (s2, k2)
            \<and> aiStrategy s2 (product_id (products s ! j)) (difficulty gm) = Inr (aiOrders ! j))"
proof -
  have "\<forall>j < length (products s). \<exists>x. \<exists>s2 k2. turnPrefix gm rnd s (Suc j) = Inr (s2, k2)
            \<and> aiStrategy s2 (product_id (products s ! j)) (difficulty gm) = Inr x"
  proof (intro allI impI)
    fix j assume j: "j < length (products s)"
    then have "Suc j \<le> length (products s)" by simp
    from turnPrefix_total[OF assms this, of gm rnd] obtain s2 k2 where
      r: "turnPrefix gm rnd s (Suc j) = Inr (s2, k2)" by blast
    then obtain st1 where a: "turnPrefix gm rnd s j = Inr st1" and b: "productStep gm rnd j st1 = Inr (s2, k2)"
      unfolding turnPrefix_Suc_Inr by blast
    obtain s1 k1 where st1: "st1 = (s1, k1)" by (cases st1) auto
    from turnPrefix_step[OF a[unfolded st1] b[unfolded st1] j] obtain aiOrder where
      "aiStrategy s2 (product_id (products s ! j)) (difficulty gm) = Inr aiOrder"
      by (elim exE conjE) (rule that, assumption)
    with r show "\<exists>x. \<exists>s2 k2. turnPrefix gm rnd s (Suc j) = Inr (s2, k2)
            \<and> aiStrategy s2 (product_id (products s ! j)) (difficulty gm) = Inr x"
      by blast
  qed
  from list_choice[OF this] show ?thesis .
qed

lemma turnPrefix_aiScore:
  assumes supps: "\<forall>i < length (products s). find (\<lambda>x. supplier_id x = supplier (products s ! i)) suppliers = Some (supps ! i)"
    and aiOrders: "\<forall>i < length (products s). \<exists>s2 k2. turnPrefix gm rnd s (Suc i) = Inr (s2, k2)
            \<and> aiStrategy s2 (product_id (products s ! i)) (difficulty gm) = Inr (aiOrders ! i)"
  shows "j \<le> length (products s) \<Longrightarrow> turnPrefix gm rnd s j = Inr (sj, kj) \<Longrightarrow>
      aiScore sj
        = foldl (\<lambda>a i. a + aiNet (stepInventory supps rnd s 0 i)
                              (realizedDemand rnd s i (length (players s) - 1)) (aiOrders ! i))
            (aiScore s) [0..<j]"
proof (induction j arbitrary: sj kj)
  case 0
  then have "sj = fst (startTurn rnd s)" by (simp add: turnPrefix_0)
  then show ?case by (simp add: startTurn_frame)
next
  case (Suc j)
  from Suc.prems(2) obtain st1 where
    a: "turnPrefix gm rnd s j = Inr st1" and b: "productStep gm rnd j st1 = Inr (sj, kj)"
    unfolding turnPrefix_Suc_Inr by blast
  obtain s1 k1 where st1: "st1 = (s1, k1)" by (cases st1) auto
  have j: "j < length (products s)" and j': "j \<le> length (products s)" using Suc.prems(1) by simp_all
  have f: "find (\<lambda>x. supplier_id x = supplier (products s ! j)) suppliers = Some (supps ! j)"
    using supps j by simp
  note ih = Suc.IH[OF j' a[unfolded st1]]
  from turnPrefix_step[OF a[unfolded st1] b[unfolded st1] j] obtain aiOrder product2 where
    ne: "players s \<noteq> []"
    and ps2: "products sj ! j = product2"
    and strat: "aiStrategy sj (product_id (products s ! j)) (difficulty gm) = Inr aiOrder"
    and ai: "aiScore sj = aiScore s1 + aiNet (inventory product2 ! 0) (last (demandHistory product2)) aiOrder"
    by (elim exE conjE) (rule that, assumption+)
  have pos: "0 < length (players s)" using ne by simp
  from aiOrders j obtain s2' k2' where
    r': "turnPrefix gm rnd s (Suc j) = Inr (s2', k2')"
    and strat': "aiStrategy s2' (product_id (products s ! j)) (difficulty gm) = Inr (aiOrders ! j)"
    by blast
  have "s2' = sj" using r' Suc.prems(2) by simp
  then have o: "aiOrder = aiOrders ! j" using strat strat' by simp
  note i = turnPrefix_step_slot(2)[OF a[unfolded st1] b[unfolded st1] j f pos]
  note d = turnPrefix_step_slot(4)[OF a[unfolded st1] b[unfolded st1] j f pos]
  have step: "aiScore sj = aiScore s1 + aiNet (stepInventory supps rnd s 0 j)
                              (realizedDemand rnd s j (length (players s) - 1)) (aiOrders ! j)"
    using ai unfolding ps2[symmetric] i d o .
  have up: "[0..<Suc j] = [0..<j] @ [j]" by simp
  show ?case
    unfolding up foldl_append foldl.simps ih[symmetric] by (rule step)
qed

lemma turnPrefix_later:
  assumes "turnPrefix gm rnd s (length (products s)) = Inr (s3, k3)" and "j < length (products s)"
  shows "\<exists>s1 k1 s2 k2. turnPrefix gm rnd s j = Inr (s1, k1) \<and> productStep gm rnd j (s1, k1) = Inr (s2, k2)
           \<and> products s3 ! j = products s2 ! j"
proof -
  let ?n = "length (products s)"
  have all: "forEach (productStep gm rnd) ([0..<j] @ [j] @ [Suc j..<?n]) (startTurn rnd s) = Inr (s3, k3)"
    unfolding upt_split3[OF assms(2), symmetric] using assms(1) by (simp add: turnPrefix_def)
  then obtain st1 st2 where
    a: "forEach (productStep gm rnd) [0..<j] (startTurn rnd s) = Inr st1"
    and b: "productStep gm rnd j st1 = Inr st2"
    and c: "forEach (productStep gm rnd) [Suc j..<?n] st2 = Inr (s3, k3)"
    unfolding forEach_append_Inr forEach_single by blast
  obtain s1 k1 s2 k2 where st12: "st1 = (s1, k1)" "st2 = (s2, k2)"
    by (cases st1, cases st2) auto
  from productsLoop_frame[OF c[unfolded st12]] have same3: "products s3 ! j = products s2 ! j"
    by auto
  have a': "turnPrefix gm rnd s j = Inr (s1, k1)" using a st12 by (simp add: turnPrefix_def)
  have b': "productStep gm rnd j (s1, k1) = Inr (s2, k2)" using b st12 by simp
  show ?thesis
    by (rule exI[of _ s1], rule exI[of _ k1], rule exI[of _ s2], rule exI[of _ k2], intro conjI)
      (fact a' b' same3)+
qed

lemma turnPrefix_products:
  assumes run: "turnPrefix gm rnd s (length (products s)) = Inr (s3, k3)" and j: "j < length (products s)"
    and f: "find (\<lambda>x. supplier_id x = supplier (products s ! j)) suppliers = Some (supps ! j)"
    and slot: "slot < length (players s)"
  shows "inventory (products s3 ! j) ! slot = stepInventory supps rnd s slot j"
    and "orders (products s3 ! j) ! slot = 0"
proof -
  from turnPrefix_later[OF run j] obtain s1 k1 s2 k2 where
    a: "turnPrefix gm rnd s j = Inr (s1, k1)" and b: "productStep gm rnd j (s1, k1) = Inr (s2, k2)"
    and same: "products s3 ! j = products s2 ! j"
    by blast
  show "inventory (products s3 ! j) ! slot = stepInventory supps rnd s slot j"
    unfolding same by (rule turnPrefix_step_slot(2)[OF a b j f slot])
  show "orders (products s3 ! j) ! slot = 0"
    unfolding same by (rule turnPrefix_step_slot(3)[OF a b j f slot])
qed

text \<open>Investments and settlement, after the loop over the products.\<close>

lemma budgetsOnly_fields:
  assumes "budgetsOnly ps qs"
  shows "map revenue qs = map revenue ps" "map holdingCost qs = map holdingCost ps"
    "map stockoutPenalty qs = map stockoutPenalty ps" "map orderCost qs = map orderCost ps"
proof -
  have e: "map (\<lambda>p. p\<lparr>budget := 0\<rparr>) qs = map (\<lambda>p. p\<lparr>budget := 0\<rparr>) ps"
    using assms by (simp add: budgetsOnly_def)
  have "map revenue (map (\<lambda>p. p\<lparr>budget := 0\<rparr>) qs) = map revenue (map (\<lambda>p. p\<lparr>budget := 0\<rparr>) ps)"
    unfolding e ..
  then show "map revenue qs = map revenue ps" by (simp add: comp_def)
  have "map holdingCost (map (\<lambda>p. p\<lparr>budget := 0\<rparr>) qs) = map holdingCost (map (\<lambda>p. p\<lparr>budget := 0\<rparr>) ps)"
    unfolding e ..
  then show "map holdingCost qs = map holdingCost ps" by (simp add: comp_def)
  have "map stockoutPenalty (map (\<lambda>p. p\<lparr>budget := 0\<rparr>) qs) = map stockoutPenalty (map (\<lambda>p. p\<lparr>budget := 0\<rparr>) ps)"
    unfolding e ..
  then show "map stockoutPenalty qs = map stockoutPenalty ps" by (simp add: comp_def)
  have "map orderCost (map (\<lambda>p. p\<lparr>budget := 0\<rparr>) qs) = map orderCost (map (\<lambda>p. p\<lparr>budget := 0\<rparr>) ps)"
    unfolding e ..
  then show "map orderCost qs = map orderCost ps" by (simp add: comp_def)
qed

lemma settleInvested_Inr_D:
  assumes "settleTrades (applyInvestments s3) = Inr s'"
  shows "products s' = products s3" and "aiScore s' = aiScore s3" and "tradeOffers s' = []"
    and "map revenue (players s') = map revenue (players s3)"
    and "map holdingCost (players s') = map holdingCost (players s3)"
    and "map stockoutPenalty (players s') = map stockoutPenalty (players s3)"
    and "map orderCost (players s') = map orderCost (players s3)"
    and "map budget (players s')
           = spec_settle (tradeOffers s3)
               (map (\<lambda>p. budget p - (rdInvestment p + facilityInvestment p)) (players s3))"
proof -
  show "products s' = products s3" "aiScore s' = aiScore s3" "tradeOffers s' = []"
    using settleTrades_frame[OF assms] by (simp_all add: applyInvestments_frame)
  note b = budgetsOnly_fields[OF settleTrades_Inr_D(2)[OF assms]]
  show "map revenue (players s') = map revenue (players s3)"
    unfolding b(1) by (simp add: applyInvestments_def comp_def)
  show "map holdingCost (players s') = map holdingCost (players s3)"
    unfolding b(2) by (simp add: applyInvestments_def comp_def)
  show "map stockoutPenalty (players s') = map stockoutPenalty (players s3)"
    unfolding b(3) by (simp add: applyInvestments_def comp_def)
  show "map orderCost (players s') = map orderCost (players s3)"
    unfolding b(4) by (simp add: applyInvestments_def comp_def)
  show "map budget (players s')
           = spec_settle (tradeOffers s3)
               (map (\<lambda>p. budget p - (rdInvestment p + facilityInvestment p)) (players s3))"
    unfolding settleTrades_Inr_D(1)[OF assms] by (simp add: applyInvestments_def comp_def)
qed

lemma settleInvested_total:
  assumes "\<forall>offer \<in> set (tradeOffers s3). offer_from offer < length (players s3) \<and> offer_to offer < length (players s3)"
  shows "\<exists>s'. settleTrades (applyInvestments s3) = Inr s'"
proof -
  have offers: "\<forall>offer \<in> set (tradeOffers (applyInvestments s3)).
      offer_from offer < length (players (applyInvestments s3))
      \<and> offer_to offer < length (players (applyInvestments s3))"
    using assms by (simp add: applyInvestments_frame)
  from tradeLoop_total[OF offers] obtain s4 where
    loop: "forEach tradeStep (tradeOffers (applyInvestments s3)) (applyInvestments s3) = Inr s4"
    by blast
  have "settleTrades (applyInvestments s3) = Inr (s4\<lparr>tradeOffers := []\<rparr>)"
    by (simp add: settleTrades_def loop)
  then show ?thesis by blast
qed

lemma productsPhase:
  assumes "slotsAligned s"
  shows "\<exists>s3 k3. processProducts gm rnd (startTurn rnd s) = Inr (s3, k3)
     \<and> turnPrefix gm rnd s (length (products s)) = Inr (s3, k3)
     \<and> nextTurn gm rnd s = settleTrades (applyInvestments s3)
     \<and> length (players s3) = length (players s) \<and> tradeOffers s3 = tradeOffers s
     \<and> map rdInvestment (players s3) = map rdInvestment (players s)
     \<and> map facilityInvestment (players s3) = map facilityInvestment (players s)"
proof -
  from turnPrefix_total[OF assms le_refl, of gm rnd] obtain s3 k3 where
    tp: "turnPrefix gm rnd s (length (products s)) = Inr (s3, k3)" by blast
  have pp: "processProducts gm rnd (startTurn rnd s) = Inr (s3, k3)"
    unfolding processProducts_turnPrefix by (rule tp)
  have nt: "nextTurn gm rnd s = settleTrades (applyInvestments s3)"
    by (simp add: nextTurn_def pp)
  note fr = processProducts_frame[OF pp]
  show ?thesis
    by (rule exI[of _ s3], rule exI[of _ k3], intro conjI) (fact pp tp nt fr)+
qed

section \<open>Aligned states\<close>

lemma slotsAligned_alt:
  "slotsAligned s \<longleftrightarrow>
     0 < length (players s)
     \<and> (\<forall>p \<in> set (products s).
           length (inventory p) = length (players s) \<and> length (orders p) = length (players s)
           \<and> find (\<lambda>x. supplier_id x = supplier p) suppliers \<noteq> None)"
  by (simp add: slotsAligned_def)

lemma slotsAligned_orderChange:
  "slotsAligned s \<Longrightarrow> slotsAligned (handleOrderChange playerId productId val s)"
  by (auto simp add: slotsAligned_def handleOrderChange_def)

lemma slotsAligned_investmentChange:
  "slotsAligned s \<Longrightarrow> slotsAligned (handleInvestmentChange playerId type0 val s)"
  by (simp add: slotsAligned_alt handleInvestmentChange_def)

lemma slotsAligned_supplierChange:
  assumes "slotsAligned s" and "supplierId \<in> supplier_id ` set suppliers"
  shows "slotsAligned (handleSupplierChange playerId productId supplierId s)"
proof -
  have "find (\<lambda>x. supplier_id x = supplierId) suppliers \<noteq> None"
    using assms(2) by (auto simp add: find_None_iff)
  with assms(1) show ?thesis
    by (auto simp add: slotsAligned_def handleSupplierChange_def)
qed

lemma slotsAligned_tradeOffer:
  "slotsAligned s \<Longrightarrow> slotsAligned (handleTradeOffer from0 to0 s)"
  by (simp add: slotsAligned_def handleTradeOffer_def)

lemma slotsAligned_playerCount:
  assumes "slotsAligned s" and "0 < n"
  shows "slotsAligned (setPlayerCount n s)"
proof -
  have ne: "players s \<noteq> []" using assms(1) by (simp add: slotsAligned_def)
  consider "length (players s) < n" | "n < length (players s)" | "n = length (players s)"
    by linarith
  then show ?thesis
  proof cases
    case 1
    with assms show ?thesis
      by (auto simp add: slotsAligned_def setPlayerCount_def Let_def)
  next
    case 2
    with assms show ?thesis
      by (auto simp add: slotsAligned_def setPlayerCount_def Let_def min_def)
  next
    case 3
    with assms show ?thesis
      by (simp add: setPlayerCount_def Let_def)
  qed
qed

lemma slotsAligned_turn:
  assumes "slotsAligned s" and "nextTurn gm rnd s = Inr s'"
  shows "slotsAligned s'"
proof -
  from nextTurn_Inr_D[OF assms(2)] obtain s3 k3 where
    pp: "processProducts gm rnd (startTurn rnd s) = Inr (s3, k3)"
    and st: "settleTrades (applyInvestments s3) = Inr s'"
    by blast
  let ?s0 = "fst (startTurn rnd s)"
  have al0: "slotsAligned ?s0"
    using assms(1) by (simp add: slotsAligned_def startTurn_frame)
  have "\<forall>x \<in> set [0..<length (products ?s0)]. x < length (products ?s0)" by simp
  from productsLoop_total[OF al0 this, of gm rnd "snd (startTurn rnd s)"] pp have al3: "slotsAligned s3"
    by (auto simp add: processProducts_def)
  have pr: "products s' = products s3"
    using settleTrades_frame(1)[OF st] by (simp add: applyInvestments_frame)
  have ln: "length (players s') = length (players s3)"
    using settleTrades_frame(3)[OF st] by (simp add: applyInvestments_frame)
  show ?thesis
    using al3 unfolding slotsAligned_alt pr ln .
qed

lemma slotsAligned_initialState: "slotsAligned initialState"
  by (simp add: slotsAligned_def initialState_def suppliers_def)

lemma uiReachable_slotsAligned: "uiReachable s \<Longrightarrow> slotsAligned s"
proof (induction rule: uiReachable.induct)
  case initial
  show ?case by (rule slotsAligned_initialState)
next
  case (orderChange s playerId productId val)
  then show ?case by (simp add: slotsAligned_orderChange)
next
  case (investmentChange s playerId type0 val)
  then show ?case by (simp add: slotsAligned_investmentChange)
next
  case (supplierChange s supplierId playerId productId)
  then show ?case by (simp add: slotsAligned_supplierChange)
next
  case (tradeOffer s from0 to0)
  then show ?case by (simp add: slotsAligned_tradeOffer)
next
  case (playerCount s n)
  then show ?case by (simp add: slotsAligned_playerCount)
next
  case (turn s gameMode rnd s')
  then show ?case using slotsAligned_turn by blast
qed

lemma uiReachable_danglingOfferState: "uiReachable danglingOfferState"
  unfolding danglingOfferState_def
  by (intro uiReachable.playerCount uiReachable.tradeOffer uiReachable.initial) simp_all

section \<open>The examples, evaluated\<close>

lemma singleton_map: "length xs = 1 \<Longrightarrow> map f xs = [f (xs ! 0)]"
  by (cases xs) auto

lemma slotsAligned_secondOrderState: "slotsAligned secondOrderState"
  by (simp add: slotsAligned_def secondOrderState_def handleInvestmentChange_def handleOrderChange_def
      initialState_def suppliers_def)

lemma secondOrderState_ledger:
  "stepInventory suppliers rnd0 secondOrderState 0 0 = 31"
  "stepInventory suppliers rnd0 secondOrderState 0 1 = 39"
  "foldl (\<lambda>a j. a + stepRevenue suppliers rnd0 secondOrderState 0 j) (revenue (players secondOrderState ! 0)) [0, 1] = 662"
  "foldl (\<lambda>a j. a + stepHoldingCost suppliers rnd0 secondOrderState 0 j) (holdingCost (players secondOrderState ! 0)) [0, 1]
     = 35"
  "foldl (\<lambda>a j. a + stepStockoutPenalty rnd0 secondOrderState 0 j) (stockoutPenalty (players secondOrderState ! 0)) [0, 1]
     = 0"
  "foldl (\<lambda>a j. a + stepOrderCost suppliers secondOrderState 0 j) (orderCost (players secondOrderState ! 0)) [0, 1] = 90"
  "foldl (\<lambda>a j. min (a - stepOrderCost suppliers secondOrderState 0 j + stepRevenue suppliers rnd0 secondOrderState 0 j) 2000)
     (budget (players secondOrderState ! 0)) [0, 1] = 1572"
  by code_simp+

lemma slotsAligned_secondTurnState: "slotsAligned secondTurnState"
proof -
  obtain s' where s': "nextTurn Normal rnd0 initialState = Inr s'"
    using nextTurn_initialState by (cases "nextTurn Normal rnd0 initialState") auto
  have "secondTurnState = s'" by (simp add: secondTurnState_def s')
  with slotsAligned_turn[OF slotsAligned_initialState s'] show ?thesis by simp
qed

lemma secondTurnState_values:
  "length (products secondTurnState) = 2" "length (players secondTurnState) = 1"
  "tradeOffers secondTurnState = []"
  "[0..<length (products secondTurnState)] = [0, 1]"
  "find (\<lambda>x. supplier_id x = supplier (products secondTurnState ! 0)) suppliers = Some (suppliers ! 0)"
  "find (\<lambda>x. supplier_id x = supplier (products secondTurnState ! 1)) suppliers = Some (suppliers ! 1)"
  by code_simp+

lemma secondTurnState_aiOrders:
  "(case turnPrefix Normal rnd0 secondTurnState (Suc 0) of
      Inl e \<Rightarrow> False
    | Inr (s2, k2) \<Rightarrow> aiStrategy s2 (product_id (products secondTurnState ! 0)) (difficulty Normal) = Inr 0)"
  "(case turnPrefix Normal rnd0 secondTurnState (Suc 1) of
      Inl e \<Rightarrow> False
    | Inr (s2, k2) \<Rightarrow> aiStrategy s2 (product_id (products secondTurnState ! 1)) (difficulty Normal) = Inr 1)"
  by code_simp+

lemma secondTurnState_aiScore:
  "aiScore secondTurnState = 769"
  "realizedDemand rnd0 secondTurnState 0 0 = 15"
  "realizedDemand rnd0 secondTurnState 1 0 = 15"
  "stepInventory suppliers rnd0 secondTurnState 0 0 = 16"
  "stepInventory suppliers rnd0 secondTurnState 0 1 = 15"
  "aiNet 16 15 0 = 599 / 2"
  "aiNet 15 15 1 = 579 / 2"
  by code_simp+

lemma wellFormed_droppedOfferState: "wellFormed droppedOfferState"
  by (simp add: wellFormed_def droppedOfferState_def handleTradeOffer_def handleOrderChange_def
      setPlayerCount_def Let_def initialState_def suppliers_def)

lemma nextTurn_droppedOfferState:
  "(case nextTurn Normal rnd0 droppedOfferState of
      Inl e \<Rightarrow> False
    | Inr s' \<Rightarrow> map budget (players s') = [- 538, 2000])"
  by code_simp

section \<open>Claims\<close>

subsection \<open>C1: every product and every player slot in a turn\<close>

text \<open>
  C1. Take a state whose per-product arrays are aligned with the players (every state
  that decisions and turns reach is one, lemma \<open>uiReachable_slotsAligned\<close>). The loop
  over the products of a turn returns a state \<open>s3\<close>, and the turn is the investments
  and the settlement applied to \<open>s3\<close>. For every player slot and every product, the
  slot's inventory in \<open>s3\<close> is
  \<open>newInventory = max 0 (inventory + order * reliability - demand)\<close> and its pending
  order is 0, from the inventory and the pending order before the turn, the demand
  realised in the turn and the product's supplier. The slot's revenue, holding cost,
  stockout penalty and order cost accumulators in \<open>s3\<close> are those before the turn with
  the amounts of the products added one product after the other, where
  \<open>revenue = min demand inventory * 20 * quality\<close>, \<open>holdingCost = newInventory * 0.5\<close>,
  \<open>stockoutPenalty = max 0 (demand - inventory) * 2\<close> and
  \<open>orderCost = order * 10 * cost\<close>; the slot's budget in \<open>s3\<close> is the budget before
  the turn after the step \<open>budget := min (budget - orderCost + revenue) 2000\<close> of every
  product in turn. Every state \<open>s'\<close> that the turn returns has the products and these
  four accumulators of \<open>s3\<close>, and its budgets are the budgets of \<open>s3\<close> less the
  pending investments, settled by the queued offers. The turn returns whenever every
  queued offer names two player slots.
\<close>

theorem nextTurn_pair_update:
  assumes "slotsAligned s"
  shows "\<exists>s3 k3 supps.
      processProducts gameMode rnd (startTurn rnd s) = Inr (s3, k3)
    \<and> nextTurn gameMode rnd s = settleTrades (applyInvestments s3)
    \<and> length (players s3) = length (players s)
    \<and> map rdInvestment (players s3) = map rdInvestment (players s)
    \<and> map facilityInvestment (players s3) = map facilityInvestment (players s)
    \<and> length supps = length (products s)
    \<and> (\<forall>j < length (products s).
          find (\<lambda>x. supplier_id x = supplier (products s ! j)) suppliers = Some (supps ! j))
    \<and> (\<forall>slot < length (players s).
          (\<forall>j < length (products s).
              inventory (products s3 ! j) ! slot = stepInventory supps rnd s slot j
              \<and> orders (products s3 ! j) ! slot = 0)
          \<and> revenue (players s3 ! slot)
              = foldl (\<lambda>a j. a + stepRevenue supps rnd s slot j) (revenue (players s ! slot))
                  [0..<length (products s)]
          \<and> holdingCost (players s3 ! slot)
              = foldl (\<lambda>a j. a + stepHoldingCost supps rnd s slot j) (holdingCost (players s ! slot))
                  [0..<length (products s)]
          \<and> stockoutPenalty (players s3 ! slot)
              = foldl (\<lambda>a j. a + stepStockoutPenalty rnd s slot j) (stockoutPenalty (players s ! slot))
                  [0..<length (products s)]
          \<and> orderCost (players s3 ! slot)
              = foldl (\<lambda>a j. a + stepOrderCost supps s slot j) (orderCost (players s ! slot))
                  [0..<length (products s)]
          \<and> budget (players s3 ! slot)
              = foldl (\<lambda>a j. min (a - stepOrderCost supps s slot j + stepRevenue supps rnd s slot j) 2000)
                  (budget (players s ! slot)) [0..<length (products s)])
    \<and> (\<forall>s'. nextTurn gameMode rnd s = Inr s' \<longrightarrow>
          products s' = products s3
          \<and> map revenue (players s') = map revenue (players s3)
          \<and> map holdingCost (players s') = map holdingCost (players s3)
          \<and> map stockoutPenalty (players s') = map stockoutPenalty (players s3)
          \<and> map orderCost (players s') = map orderCost (players s3)
          \<and> map budget (players s')
              = spec_settle (tradeOffers s)
                  (map (\<lambda>p. budget p - (rdInvestment p + facilityInvestment p)) (players s3)))
    \<and> ((\<forall>offer \<in> set (tradeOffers s).
            offer_from offer < length (players s) \<and> offer_to offer < length (players s))
        \<longrightarrow> (\<exists>s'. nextTurn gameMode rnd s = Inr s'))"
proof -
  from productsPhase[OF assms, of gameMode rnd] obtain s3 k3 where
    pp: "processProducts gameMode rnd (startTurn rnd s) = Inr (s3, k3)"
    and tp: "turnPrefix gameMode rnd s (length (products s)) = Inr (s3, k3)"
    and nt: "nextTurn gameMode rnd s = settleTrades (applyInvestments s3)"
    and len: "length (players s3) = length (players s)" and tr: "tradeOffers s3 = tradeOffers s"
    and rd: "map rdInvestment (players s3) = map rdInvestment (players s)"
    and fc: "map facilityInvestment (players s3) = map facilityInvestment (players s)"
    by (elim exE conjE) (rule that, assumption+)
  from slotsAligned_supps[OF assms] obtain supps where
    ls: "length supps = length (products s)"
    and sf: "\<forall>j < length (products s).
          find (\<lambda>x. supplier_id x = supplier (products s ! j)) suppliers = Some (supps ! j)"
    by blast
  have slots: "\<forall>slot < length (players s).
          (\<forall>j < length (products s).
              inventory (products s3 ! j) ! slot = stepInventory supps rnd s slot j
              \<and> orders (products s3 ! j) ! slot = 0)
          \<and> revenue (players s3 ! slot)
              = foldl (\<lambda>a j. a + stepRevenue supps rnd s slot j) (revenue (players s ! slot))
                  [0..<length (products s)]
          \<and> holdingCost (players s3 ! slot)
              = foldl (\<lambda>a j. a + stepHoldingCost supps rnd s slot j) (holdingCost (players s ! slot))
                  [0..<length (products s)]
          \<and> stockoutPenalty (players s3 ! slot)
              = foldl (\<lambda>a j. a + stepStockoutPenalty rnd s slot j) (stockoutPenalty (players s ! slot))
                  [0..<length (products s)]
          \<and> orderCost (players s3 ! slot)
              = foldl (\<lambda>a j. a + stepOrderCost supps s slot j) (orderCost (players s ! slot))
                  [0..<length (products s)]
          \<and> budget (players s3 ! slot)
              = foldl (\<lambda>a j. min (a - stepOrderCost supps s slot j + stepRevenue supps rnd s slot j) 2000)
                  (budget (players s ! slot)) [0..<length (products s)]"
  proof (intro allI impI conjI)
    fix slot j assume slot: "slot < length (players s)" and j: "j < length (products s)"
    from sf j have f: "find (\<lambda>x. supplier_id x = supplier (products s ! j)) suppliers = Some (supps ! j)"
      by simp
    show "inventory (products s3 ! j) ! slot = stepInventory supps rnd s slot j"
      by (rule turnPrefix_products(1)[OF tp j f slot])
    show "orders (products s3 ! j) ! slot = 0"
      by (rule turnPrefix_products(2)[OF tp j f slot])
  next
    fix slot assume slot: "slot < length (players s)"
    note l = turnPrefix_ledger[OF sf slot le_refl tp]
    show "revenue (players s3 ! slot)
              = foldl (\<lambda>a j. a + stepRevenue supps rnd s slot j) (revenue (players s ! slot))
                  [0..<length (products s)]"
      using l by (elim conjE)
    show "holdingCost (players s3 ! slot)
              = foldl (\<lambda>a j. a + stepHoldingCost supps rnd s slot j) (holdingCost (players s ! slot))
                  [0..<length (products s)]"
      using l by (elim conjE)
    show "stockoutPenalty (players s3 ! slot)
              = foldl (\<lambda>a j. a + stepStockoutPenalty rnd s slot j) (stockoutPenalty (players s ! slot))
                  [0..<length (products s)]"
      using l by (elim conjE)
    show "orderCost (players s3 ! slot)
              = foldl (\<lambda>a j. a + stepOrderCost supps s slot j) (orderCost (players s ! slot))
                  [0..<length (products s)]"
      using l by (elim conjE)
    show "budget (players s3 ! slot)
              = foldl (\<lambda>a j. min (a - stepOrderCost supps s slot j + stepRevenue supps rnd s slot j) 2000)
                  (budget (players s ! slot)) [0..<length (products s)]"
      using l by (elim conjE)
  qed
  have ret: "\<forall>s'. nextTurn gameMode rnd s = Inr s' \<longrightarrow>
          products s' = products s3
          \<and> map revenue (players s') = map revenue (players s3)
          \<and> map holdingCost (players s') = map holdingCost (players s3)
          \<and> map stockoutPenalty (players s') = map stockoutPenalty (players s3)
          \<and> map orderCost (players s') = map orderCost (players s3)
          \<and> map budget (players s')
              = spec_settle (tradeOffers s)
                  (map (\<lambda>p. budget p - (rdInvestment p + facilityInvestment p)) (players s3))"
  proof (intro allI impI)
    fix s' assume "nextTurn gameMode rnd s = Inr s'"
    then have st: "settleTrades (applyInvestments s3) = Inr s'" unfolding nt .
    note d = settleInvested_Inr_D[OF st, unfolded tr]
    show "products s' = products s3
          \<and> map revenue (players s') = map revenue (players s3)
          \<and> map holdingCost (players s') = map holdingCost (players s3)
          \<and> map stockoutPenalty (players s') = map stockoutPenalty (players s3)
          \<and> map orderCost (players s') = map orderCost (players s3)
          \<and> map budget (players s')
              = spec_settle (tradeOffers s)
                  (map (\<lambda>p. budget p - (rdInvestment p + facilityInvestment p)) (players s3))"
      by (intro conjI) (fact d)+
  qed
  have tot: "(\<forall>offer \<in> set (tradeOffers s).
            offer_from offer < length (players s) \<and> offer_to offer < length (players s))
        \<longrightarrow> (\<exists>s'. nextTurn gameMode rnd s = Inr s')"
    unfolding nt tr[symmetric] len[symmetric] by (intro impI) (rule settleInvested_total)
  show ?thesis
    by (rule exI[of _ s3], rule exI[of _ k3], rule exI[of _ supps], intro conjI)
      (fact pp nt len rd fc ls sf slots ret tot)+
qed

text \<open>
  C1, witness: the first turn after player 0 has ordered 10 units of product 2
  (supplier B: quality 0.8, cost 0.9, reliability 0.9) and set an R&D investment of
  100. Product 1: inventory 50, no order, demand 19, revenue 342; product 2: inventory
  50, demand 20, 9 units delivered, revenue 320, order cost 90; the budget is 1572 after
  the two ledger steps and 1472 after the investment.
\<close>

theorem nextTurn_pair_update_witness:
  "slotsAligned secondOrderState
   \<and> (\<exists>s'. nextTurn Normal rnd0 secondOrderState = Inr s'
        \<and> inventory (products s' ! 0) ! 0 = 31 \<and> orders (products s' ! 0) ! 0 = 0
        \<and> inventory (products s' ! 1) ! 0 = 39 \<and> orders (products s' ! 1) ! 0 = 0
        \<and> map revenue (players s') = [662] \<and> map holdingCost (players s') = [35]
        \<and> map stockoutPenalty (players s') = [0] \<and> map orderCost (players s') = [90]
        \<and> map budget (players s') = [1472])"
proof -
  from nextTurn_pair_update[OF slotsAligned_secondOrderState, of Normal rnd0] obtain s3 k3 supps where
    pp: "processProducts Normal rnd0 (startTurn rnd0 secondOrderState) = Inr (s3, k3)"
    and nt: "nextTurn Normal rnd0 secondOrderState = settleTrades (applyInvestments s3)"
    and len: "length (players s3) = length (players secondOrderState)"
    and rd: "map rdInvestment (players s3) = map rdInvestment (players secondOrderState)"
    and fc: "map facilityInvestment (players s3) = map facilityInvestment (players secondOrderState)"
    and ls: "length supps = length (products secondOrderState)"
    and sf: "\<forall>j < length (products secondOrderState).
          find (\<lambda>x. supplier_id x = supplier (products secondOrderState ! j)) suppliers = Some (supps ! j)"
    and slots: "\<forall>slot < length (players secondOrderState).
          (\<forall>j < length (products secondOrderState).
              inventory (products s3 ! j) ! slot = stepInventory supps rnd0 secondOrderState slot j
              \<and> orders (products s3 ! j) ! slot = 0)
          \<and> revenue (players s3 ! slot)
              = foldl (\<lambda>a j. a + stepRevenue supps rnd0 secondOrderState slot j)
                  (revenue (players secondOrderState ! slot)) [0..<length (products secondOrderState)]
          \<and> holdingCost (players s3 ! slot)
              = foldl (\<lambda>a j. a + stepHoldingCost supps rnd0 secondOrderState slot j)
                  (holdingCost (players secondOrderState ! slot)) [0..<length (products secondOrderState)]
          \<and> stockoutPenalty (players s3 ! slot)
              = foldl (\<lambda>a j. a + stepStockoutPenalty rnd0 secondOrderState slot j)
                  (stockoutPenalty (players secondOrderState ! slot)) [0..<length (products secondOrderState)]
          \<and> orderCost (players s3 ! slot)
              = foldl (\<lambda>a j. a + stepOrderCost supps secondOrderState slot j)
                  (orderCost (players secondOrderState ! slot)) [0..<length (products secondOrderState)]
          \<and> budget (players s3 ! slot)
              = foldl (\<lambda>a j. min (a - stepOrderCost supps secondOrderState slot j
                                      + stepRevenue supps rnd0 secondOrderState slot j) 2000)
                  (budget (players secondOrderState ! slot)) [0..<length (products secondOrderState)]"
    and ret: "\<forall>s'. nextTurn Normal rnd0 secondOrderState = Inr s' \<longrightarrow>
          products s' = products s3
          \<and> map revenue (players s') = map revenue (players s3)
          \<and> map holdingCost (players s') = map holdingCost (players s3)
          \<and> map stockoutPenalty (players s') = map stockoutPenalty (players s3)
          \<and> map orderCost (players s') = map orderCost (players s3)
          \<and> map budget (players s')
              = spec_settle (tradeOffers secondOrderState)
                  (map (\<lambda>p. budget p - (rdInvestment p + facilityInvestment p)) (players s3))"
    and tot: "(\<forall>offer \<in> set (tradeOffers secondOrderState).
            offer_from offer < length (players secondOrderState)
            \<and> offer_to offer < length (players secondOrderState))
        \<longrightarrow> (\<exists>s'. nextTurn Normal rnd0 secondOrderState = Inr s')"
    by (elim exE conjE) (rule that, assumption+)
  have n: "length (products secondOrderState) = 2" "length (players secondOrderState) = 1"
    "tradeOffers secondOrderState = []"
    by (simp_all add: secondOrderState_def handleInvestmentChange_def handleOrderChange_def initialState_def)
  have up: "[0..<length (products secondOrderState)] = [0, 1]" by code_simp
  have f: "find (\<lambda>x. supplier_id x = supplier (products secondOrderState ! 0)) suppliers = Some (suppliers ! 0)"
    "find (\<lambda>x. supplier_id x = supplier (products secondOrderState ! 1)) suppliers = Some (suppliers ! 1)"
    by (simp_all add: secondOrderState_def handleInvestmentChange_def handleOrderChange_def initialState_def suppliers_def)
  have e: "supps ! 0 = suppliers ! 0" "supps ! 1 = suppliers ! 1"
    using sf f n by simp_all
  have c: "stepInventory supps rnd0 secondOrderState 0 0 = stepInventory suppliers rnd0 secondOrderState 0 0"
    "stepInventory supps rnd0 secondOrderState 0 1 = stepInventory suppliers rnd0 secondOrderState 0 1"
    "stepRevenue supps rnd0 secondOrderState 0 0 = stepRevenue suppliers rnd0 secondOrderState 0 0"
    "stepRevenue supps rnd0 secondOrderState 0 1 = stepRevenue suppliers rnd0 secondOrderState 0 1"
    "stepHoldingCost supps rnd0 secondOrderState 0 0 = stepHoldingCost suppliers rnd0 secondOrderState 0 0"
    "stepHoldingCost supps rnd0 secondOrderState 0 1 = stepHoldingCost suppliers rnd0 secondOrderState 0 1"
    "stepOrderCost supps secondOrderState 0 0 = stepOrderCost suppliers secondOrderState 0 0"
    "stepOrderCost supps secondOrderState 0 1 = stepOrderCost suppliers secondOrderState 0 1"
    unfolding stepInventory_def stepRevenue_def stepHoldingCost_def stepOrderCost_def e by (rule refl)+
  have pos: "0 < length (players secondOrderState)" "0 < length (products secondOrderState)"
    "1 < length (products secondOrderState)"
    using n by simp_all
  from slots pos(1) have
    i3: "\<forall>j < length (products secondOrderState).
              inventory (products s3 ! j) ! 0 = stepInventory supps rnd0 secondOrderState 0 j
              \<and> orders (products s3 ! j) ! 0 = 0"
    and r3: "revenue (players s3 ! 0)
              = foldl (\<lambda>a j. a + stepRevenue supps rnd0 secondOrderState 0 j)
                  (revenue (players secondOrderState ! 0)) [0..<length (products secondOrderState)]"
    and h3: "holdingCost (players s3 ! 0)
              = foldl (\<lambda>a j. a + stepHoldingCost supps rnd0 secondOrderState 0 j)
                  (holdingCost (players secondOrderState ! 0)) [0..<length (products secondOrderState)]"
    and p3: "stockoutPenalty (players s3 ! 0)
              = foldl (\<lambda>a j. a + stepStockoutPenalty rnd0 secondOrderState 0 j)
                  (stockoutPenalty (players secondOrderState ! 0)) [0..<length (products secondOrderState)]"
    and o3: "orderCost (players s3 ! 0)
              = foldl (\<lambda>a j. a + stepOrderCost supps secondOrderState 0 j)
                  (orderCost (players secondOrderState ! 0)) [0..<length (products secondOrderState)]"
    and b3: "budget (players s3 ! 0)
              = foldl (\<lambda>a j. min (a - stepOrderCost supps secondOrderState 0 j
                                      + stepRevenue supps rnd0 secondOrderState 0 j) 2000)
                  (budget (players secondOrderState ! 0)) [0..<length (products secondOrderState)]"
    by blast+
  note v = secondOrderState_ledger[unfolded foldl.simps]
  from i3 pos(2) have i0: "inventory (products s3 ! 0) ! 0 = stepInventory supps rnd0 secondOrderState 0 0"
    and g0: "orders (products s3 ! 0) ! 0 = 0"
    by blast+
  from i3 pos(3) have i1: "inventory (products s3 ! 1) ! 0 = stepInventory supps rnd0 secondOrderState 0 1"
    and g1: "orders (products s3 ! 1) ! 0 = 0"
    by blast+
  have i0': "inventory (products s3 ! 0) ! 0 = 31"
    unfolding i0 c by (rule v(1))
  have i1': "inventory (products s3 ! 1) ! 0 = 39"
    unfolding i1 c by (rule v(2))
  have r3': "revenue (players s3 ! 0) = 662"
    unfolding r3 up foldl.simps c by (rule v(3))
  have h3': "holdingCost (players s3 ! 0) = 35"
    unfolding h3 up foldl.simps c by (rule v(4))
  have p3': "stockoutPenalty (players s3 ! 0) = 0"
    unfolding p3 up foldl.simps by (rule v(5))
  have o3': "orderCost (players s3 ! 0) = 90"
    unfolding o3 up foldl.simps c by (rule v(6))
  have b3': "budget (players s3 ! 0) = 1572"
    unfolding b3 up foldl.simps c by (rule v(7))
  have len3: "length (players s3) = 1" using len n by simp
  have inv0: "map rdInvestment (players s3) = [100]" "map facilityInvestment (players s3) = [0]"
    unfolding rd fc by (simp_all add: secondOrderState_def handleInvestmentChange_def handleOrderChange_def initialState_def newPlayer_def)
  have inv0': "rdInvestment (players s3 ! 0) = 100" "facilityInvestment (players s3 ! 0) = 0"
    using inv0 unfolding singleton_map[OF len3] by simp_all
  from tot obtain s' where s': "nextTurn Normal rnd0 secondOrderState = Inr s'"
    unfolding n by auto
  from ret s' have
    q1: "products s' = products s3"
    and q2: "map revenue (players s') = map revenue (players s3)"
    and q3: "map holdingCost (players s') = map holdingCost (players s3)"
    and q4: "map stockoutPenalty (players s') = map stockoutPenalty (players s3)"
    and q5: "map orderCost (players s') = map orderCost (players s3)"
    and q6: "map budget (players s')
              = spec_settle (tradeOffers secondOrderState)
                  (map (\<lambda>p. budget p - (rdInvestment p + facilityInvestment p)) (players s3))"
    by blast+
  have w1: "inventory (products s' ! 0) ! 0 = 31" "orders (products s' ! 0) ! 0 = 0"
    "inventory (products s' ! 1) ! 0 = 39" "orders (products s' ! 1) ! 0 = 0"
    unfolding q1 by (fact i0' g0 i1' g1)+
  have w2: "map revenue (players s') = [662]"
    unfolding q2 singleton_map[OF len3] r3' ..
  have w3: "map holdingCost (players s') = [35]"
    unfolding q3 singleton_map[OF len3] h3' ..
  have w4: "map stockoutPenalty (players s') = [0]"
    unfolding q4 singleton_map[OF len3] p3' ..
  have w5: "map orderCost (players s') = [90]"
    unfolding q5 singleton_map[OF len3] o3' ..
  have w6: "map budget (players s') = [1472]"
    unfolding q6 n singleton_map[OF len3] b3' inv0' by simp
  show ?thesis
    by (intro conjI exI[of _ s']) (fact slotsAligned_secondOrderState s' w1 w2 w3 w4 w5 w6)+
qed

subsection \<open>C2: the budget ceiling\<close>

text \<open>
  C2 fails on the code. The ceiling of 2000 is applied in the ledger step only (line
  350); the trade settlement credits the recipient without it. With two players and
  one trade offer of 100 from player 0 to player 1, the first turn returns the budgets
  1562 and 2100.
\<close>

theorem budget_above_ceiling:
  "(case nextTurn Normal rnd0 tradeState of
      Inl e \<Rightarrow> False
    | Inr s' \<Rightarrow> map budget (players s') = [1562, 2100])"
  by code_simp

subsection \<open>C3: trade settlement\<close>

text \<open>
  C3 fails on the code. The settlement reads the budget of the payer and of the
  recipient of every offer without checking that the player exists (lines 393-395), and
  cutting the player count (lines 475-486) leaves the queued offers alone. With two
  players, an offer from player 1 to player 0 queued, and the player count set back to
  1 (a state the decisions reach, lemma \<open>uiReachable_danglingOfferState\<close>), the turn
  throws a \<open>TypeError\<close>: no state is returned, so the offer is not dropped silently and
  the queue is not emptied.
\<close>

theorem nextTurn_dangling_offer:
  "tradeOffers danglingOfferState = [\<lparr>offer_from = 1, offer_to = 0, amount = 100\<rparr>]
   \<and> length (players danglingOfferState) = 1
   \<and> (case nextTurn Normal rnd0 danglingOfferState of Inl e \<Rightarrow> e = TypeError | Inr s' \<Rightarrow> False)"
  by code_simp

subsection \<open>C4: the ledger contract\<close>

text \<open>
  C4 equates sums of floating-point numbers that the source accumulates in different
  orders: the score adds \<open>revenue - holdingCost - stockoutPenalty - orderCost\<close> of every
  step, the four accumulators add their amounts one by one. Whether the two sides agree
  to the last bit depends on the rounding of every addition, which the exact numbers of
  this development do not model. The contract in exact arithmetic is theorem
  \<open>reachable_ledger\<close> among the further properties below.
\<close>

subsection \<open>C5: the order of the AI policy\<close>

text \<open>
  C5 fails on the code. The budget has no floor (line 350), so \<open>\<lfloor>budget / 10\<rfloor>\<close> can be
  negative, and the \<open>min\<close> of line 111 then returns it: the \<open>max 0\<close> of line 108 guards
  the raw order only. In the turn in which player 0 has ordered 200 units of product 1,
  slot 0's budget is negative when the AI block of product 1 runs: the policy returns
  the order -86 for a product that exists, and the block credits the AI 1182 for the
  product, where an order of 0 gives 279. On the state that the turn returns the policy
  returns -54.
\<close>

theorem aiStrategy_negative_order:
  "(case productStep Normal rnd0 0 (startTurn rnd0 bigOrderState) of
      Inl e \<Rightarrow> False
    | Inr (s2, k2) \<Rightarrow>
        budget (players s2 ! 0) = - 858
        \<and> find (\<lambda>p. product_id p = 1) (products s2) \<noteq> None
        \<and> aiStrategy s2 1 (difficulty Normal) = Inr (- 86)
        \<and> aiScore s2 - aiScore bigOrderState = 1182
        \<and> aiNet (inventory (products s2 ! 0) ! 0) (last (demandHistory (products s2 ! 0))) 0 = 279)
   \<and> (case nextTurn Normal rnd0 bigOrderState of
        Inl e \<Rightarrow> False
      | Inr s' \<Rightarrow>
          budget (players s' ! 0) = - 538
          \<and> find (\<lambda>p. product_id p = 1) (products s') \<noteq> None
          \<and> aiStrategy s' 1 (difficulty Normal) = Inr (- 54))"
  by code_simp

subsection \<open>C6: the score of the AI\<close>

text \<open>
  C6, as amended. Take a state whose per-product arrays are aligned with the players,
  and a turn in which, for every product, the demand realised for the last player slot
  is the one realised for slot 0 (always so with one player). The loop over the
  products returns a state \<open>s3\<close> whose \<open>aiScore\<close> is the one before the turn with, for
  every product in turn, the amount
  \<open>min D I * 20 - max 0 (I + aiOrder - D) * 0.5 - max 0 (D - I) * 2 - aiOrder * 10\<close>
  added: no supplier multiplier, and the order counted in full. Here \<open>D\<close> is slot 0's
  realised demand, \<open>I\<close> is slot 0's inventory as the player loop of this turn has left it
  (\<open>max 0 (inventory + order * reliability - D)\<close>), and \<open>aiOrder\<close> is the order of
  \<open>aiStrategy\<close> on the state just after the product is processed (the policy does not
  read \<open>aiScore\<close>). Every player of \<open>s3\<close> is the player before the turn with the ledger
  step 2(f) of every product applied in turn, and nothing else: the AI block changes no
  player. Every state that the turn returns has the \<open>aiScore\<close> of \<open>s3\<close>, and the turn
  returns whenever every queued offer names two player slots.
\<close>

theorem nextTurn_aiScore:
  assumes "slotsAligned s"
    and "\<forall>j < length (products s). realizedDemand rnd s j (length (players s) - 1) = realizedDemand rnd s j 0"
  shows "\<exists>s3 k3 supps aiOrders.
      processProducts gameMode rnd (startTurn rnd s) = Inr (s3, k3)
    \<and> nextTurn gameMode rnd s = settleTrades (applyInvestments s3)
    \<and> length supps = length (products s)
    \<and> (\<forall>j < length (products s).
          find (\<lambda>x. supplier_id x = supplier (products s ! j)) suppliers = Some (supps ! j))
    \<and> length aiOrders = length (products s)
    \<and> (\<forall>j < length (products s). \<exists>s2 k2. turnPrefix gameMode rnd s (Suc j) = Inr (s2, k2)
          \<and> aiStrategy s2 (product_id (products s ! j)) (difficulty gameMode) = Inr (aiOrders ! j))
    \<and> aiScore s3
        = foldl (\<lambda>a j. a + aiNet (stepInventory supps rnd s 0 j) (realizedDemand rnd s j 0) (aiOrders ! j))
            (aiScore s) [0..<length (products s)]
    \<and> length (players s3) = length (players s)
    \<and> (\<forall>slot < length (players s).
          players s3 ! slot
            = foldl (\<lambda>p j. spec_ledger (supps ! j) (realizedDemand rnd s j slot) (inventory (products s ! j) ! slot)
                        (orders (products s ! j) ! slot)
                        (rnd (snd (startTurn rnd s) + j * (length (players s) + 1) + slot)) p)
                (players s ! slot) [0..<length (products s)])
    \<and> (\<forall>s'. nextTurn gameMode rnd s = Inr s' \<longrightarrow> aiScore s' = aiScore s3)
    \<and> ((\<forall>offer \<in> set (tradeOffers s).
            offer_from offer < length (players s) \<and> offer_to offer < length (players s))
        \<longrightarrow> (\<exists>s'. nextTurn gameMode rnd s = Inr s'))"
proof -
  from productsPhase[OF assms(1), of gameMode rnd] obtain s3 k3 where
    pp: "processProducts gameMode rnd (startTurn rnd s) = Inr (s3, k3)"
    and tp: "turnPrefix gameMode rnd s (length (products s)) = Inr (s3, k3)"
    and nt: "nextTurn gameMode rnd s = settleTrades (applyInvestments s3)"
    and len: "length (players s3) = length (players s)" and tr: "tradeOffers s3 = tradeOffers s"
    by (elim exE conjE) (rule that, assumption+)
  from slotsAligned_supps[OF assms(1)] obtain supps where
    ls: "length supps = length (products s)"
    and sf: "\<forall>j < length (products s).
          find (\<lambda>x. supplier_id x = supplier (products s ! j)) suppliers = Some (supps ! j)"
    by blast
  from turnPrefix_aiOrders[OF assms(1), of gameMode rnd] obtain aiOrders where
    la: "length aiOrders = length (products s)"
    and ao: "\<forall>j < length (products s). \<exists>s2 k2. turnPrefix gameMode rnd s (Suc j) = Inr (s2, k2)
          \<and> aiStrategy s2 (product_id (products s ! j)) (difficulty gameMode) = Inr (aiOrders ! j)"
    by blast
  have "aiScore s3
        = foldl (\<lambda>a j. a + aiNet (stepInventory supps rnd s 0 j)
                              (realizedDemand rnd s j (length (players s) - 1)) (aiOrders ! j))
            (aiScore s) [0..<length (products s)]"
    by (rule turnPrefix_aiScore[OF sf ao le_refl tp])
  also have "\<dots> = foldl (\<lambda>a j. a + aiNet (stepInventory supps rnd s 0 j) (realizedDemand rnd s j 0) (aiOrders ! j))
            (aiScore s) [0..<length (products s)]"
    by (rule foldl_cong) (use assms(2) in simp_all)
  finally have sc: "aiScore s3
        = foldl (\<lambda>a j. a + aiNet (stepInventory supps rnd s 0 j) (realizedDemand rnd s j 0) (aiOrders ! j))
            (aiScore s) [0..<length (products s)]" .
  have pl: "\<forall>slot < length (players s).
          players s3 ! slot
            = foldl (\<lambda>p j. spec_ledger (supps ! j) (realizedDemand rnd s j slot) (inventory (products s ! j) ! slot)
                        (orders (products s ! j) ! slot)
                        (rnd (snd (startTurn rnd s) + j * (length (players s) + 1) + slot)) p)
                (players s ! slot) [0..<length (products s)]"
    by (intro allI impI) (rule turnPrefix_players[OF sf _ le_refl tp])
  have ret: "\<forall>s'. nextTurn gameMode rnd s = Inr s' \<longrightarrow> aiScore s' = aiScore s3"
    unfolding nt by (intro allI impI) (rule settleInvested_Inr_D(2))
  have tot: "(\<forall>offer \<in> set (tradeOffers s).
            offer_from offer < length (players s) \<and> offer_to offer < length (players s))
        \<longrightarrow> (\<exists>s'. nextTurn gameMode rnd s = Inr s')"
    unfolding nt tr[symmetric] len[symmetric] by (intro impI) (rule settleInvested_total)
  show ?thesis
    by (rule exI[of _ s3], rule exI[of _ k3], rule exI[of _ supps], rule exI[of _ aiOrders], intro conjI)
      (fact pp nt ls sf la ao sc len pl ret tot)+
qed

text \<open>
  C6, witness: the second turn of a game with one player and no decisions. The AI
  orders 0 units of product 1 and gains 299.5 for it (\<open>D = 15\<close>, \<open>I = 16\<close>), and
  orders 1 unit of product 2 and gains 289.5 for it (\<open>D = 15\<close>, \<open>I = 15\<close>).
\<close>

theorem nextTurn_aiScore_witness:
  "slotsAligned secondTurnState \<and> length (players secondTurnState) = 1
   \<and> aiScore secondTurnState = 769
   \<and> (\<exists>s'. nextTurn Normal rnd0 secondTurnState = Inr s' \<and> aiScore s' = 769 + 599 / 2 + 579 / 2)"
proof -
  note n = secondTurnState_values(1-3)
  have d: "\<forall>j < length (products secondTurnState).
         realizedDemand rnd0 secondTurnState j (length (players secondTurnState) - 1)
         = realizedDemand rnd0 secondTurnState j 0"
    unfolding n by simp
  from nextTurn_aiScore[OF slotsAligned_secondTurnState d, of Normal] obtain s3 k3 supps aiOrders where
    nt: "nextTurn Normal rnd0 secondTurnState = settleTrades (applyInvestments s3)"
    and sf: "\<forall>j < length (products secondTurnState).
          find (\<lambda>x. supplier_id x = supplier (products secondTurnState ! j)) suppliers = Some (supps ! j)"
    and ao: "\<forall>j < length (products secondTurnState). \<exists>s2 k2. turnPrefix Normal rnd0 secondTurnState (Suc j) = Inr (s2, k2)
          \<and> aiStrategy s2 (product_id (products secondTurnState ! j)) (difficulty Normal) = Inr (aiOrders ! j)"
    and sc: "aiScore s3
        = foldl (\<lambda>a j. a + aiNet (stepInventory supps rnd0 secondTurnState 0 j)
                              (realizedDemand rnd0 secondTurnState j 0) (aiOrders ! j))
            (aiScore secondTurnState) [0..<length (products secondTurnState)]"
    and ret: "\<forall>s'. nextTurn Normal rnd0 secondTurnState = Inr s' \<longrightarrow> aiScore s' = aiScore s3"
    and tot: "(\<forall>offer \<in> set (tradeOffers secondTurnState).
            offer_from offer < length (players secondTurnState)
            \<and> offer_to offer < length (players secondTurnState))
        \<longrightarrow> (\<exists>s'. nextTurn Normal rnd0 secondTurnState = Inr s')"
    by (elim exE conjE) (rule that, assumption+)
  note up = secondTurnState_values(4)
  note f = secondTurnState_values(5,6)
  have e: "supps ! 0 = suppliers ! 0" "supps ! 1 = suppliers ! 1"
    using sf f n by simp_all
  from ao n obtain s2 k2 where
    "turnPrefix Normal rnd0 secondTurnState (Suc 0) = Inr (s2, k2)"
    "aiStrategy s2 (product_id (products secondTurnState ! 0)) (difficulty Normal) = Inr (aiOrders ! 0)"
    by force
  with secondTurnState_aiOrders(1) have o0: "aiOrders ! 0 = 0" by simp
  have "1 < length (products secondTurnState)" using n by simp
  with ao obtain s2' k2' where
    "turnPrefix Normal rnd0 secondTurnState (Suc 1) = Inr (s2', k2')"
    "aiStrategy s2' (product_id (products secondTurnState ! 1)) (difficulty Normal) = Inr (aiOrders ! 1)"
    by blast
  with secondTurnState_aiOrders(2) have o1: "aiOrders ! 1 = 1" by simp
  have c: "stepInventory supps rnd0 secondTurnState 0 0 = stepInventory suppliers rnd0 secondTurnState 0 0"
    "stepInventory supps rnd0 secondTurnState 0 1 = stepInventory suppliers rnd0 secondTurnState 0 1"
    unfolding stepInventory_def e by (rule refl)+
  note v = secondTurnState_aiScore
  have sc': "aiScore s3 = 769 + 599 / 2 + 579 / 2"
    unfolding sc up foldl.simps c o0 o1 v ..
  from tot obtain s' where s': "nextTurn Normal rnd0 secondTurnState = Inr s'"
    unfolding n by auto
  from ret s' have "aiScore s' = aiScore s3" by blast
  then have w: "aiScore s' = 769 + 599 / 2 + 579 / 2" unfolding sc' .
  show ?thesis
    by (intro conjI exI[of _ s']) (fact slotsAligned_secondTurnState n(2) v(1) s' w)+
qed

text \<open>
  C6, counterexample to the claim as stated (the specification's steps (c) to (e) with the
  supplier's multipliers on slot 0's inventory before the turn). In the first turn from
  the initial state the AI orders 0 units of product 1 and the code adds 374 for it,
  where the claim's formula gives 326.5; over both products the code adds 769 and the
  formula 631.5. In the second turn the AI orders 1 unit of product 2 and the code adds
  289.5 for it (revenue 300, holding cost 0.5, order cost 10, on the inventory 15 that
  the player loop has left), where the claim's formula gives 223.05 (revenue 240,
  holding cost 7.95, order cost 9, on the inventory 30 before the turn).
\<close>

theorem aiScore_mirror_counterexample:
  "(case productStep Normal rnd0 0 (startTurn rnd0 initialState) of
      Inl e \<Rightarrow> False
    | Inr (s2, k2) \<Rightarrow> aiStrategy s2 1 (difficulty Normal) = Inr 0 \<and> aiScore s2 - aiScore initialState = 374)
   \<and> spec_shadowNet (suppliers ! 0) (inventory (products initialState ! 0) ! 0)
        (realizedDemand rnd0 initialState 0 0) 0 = 653 / 2
   \<and> (case nextTurn Normal rnd0 initialState of
        Inl e \<Rightarrow> False
      | Inr s' \<Rightarrow> aiScore s' - aiScore initialState = 769)
   \<and> spec_shadowNet (suppliers ! 0) (inventory (products initialState ! 0) ! 0)
        (realizedDemand rnd0 initialState 0 0) 0
     + spec_shadowNet (suppliers ! 1) (inventory (products initialState ! 1) ! 0)
        (realizedDemand rnd0 initialState 1 0) 0 = 1263 / 2
   \<and> (case nextTurn Normal rnd0 initialState of
        Inl e \<Rightarrow> False
      | Inr s1 \<Rightarrow>
          (case turnPrefix Normal rnd0 s1 1 of
             Inl e \<Rightarrow> False
           | Inr (sa, ka) \<Rightarrow>
               (case turnPrefix Normal rnd0 s1 2 of
                  Inl e \<Rightarrow> False
                | Inr (sb, kb) \<Rightarrow>
                    aiStrategy sb 2 (difficulty Normal) = Inr 1
                    \<and> aiScore sb - aiScore sa = 579 / 2
                    \<and> spec_shadowNet (suppliers ! 1) (inventory (products s1 ! 1) ! 0)
                          (realizedDemand rnd0 s1 1 0) 1 = 4461 / 20)))"
  by code_simp

subsection \<open>C7: inventories after a turn\<close>

text \<open>
  C7, as amended. After a turn that returns, the inventory of every product at every
  player slot is non-negative.
\<close>

theorem nextTurn_inventory_nonneg:
  assumes "nextTurn gameMode rnd s = Inr s'" and "pidx < length (products s)" and "slot < length (players s)"
  shows "0 \<le> inventory (products s' ! pidx) ! slot"
proof -
  from nextTurn_slot[OF assms] obtain supp and s2 :: GameState where
    a: "inventory (products s2 ! pidx) ! slot =
        spec_newInventory supp (realizedDemand rnd s pidx slot) (inventory (products s ! pidx) ! slot)
          (orders (products s ! pidx) ! slot)"
    and b: "inventory (products s' ! pidx) = inventory (products s2 ! pidx)"
    by blast
  show ?thesis unfolding b a by (rule spec_newInventory_nonneg)
qed

text \<open>C7, witness: the first turn after player 0 has ordered 10 units of product 1.\<close>

theorem nextTurn_inventory_nonneg_witness:
  "\<exists>s'. nextTurn Normal rnd0 orderedState = Inr s' \<and> 0 \<le> inventory (products s' ! 0) ! 0"
proof -
  obtain s' where s': "nextTurn Normal rnd0 orderedState = Inr s'"
    using nextTurn_orderedState by (cases "nextTurn Normal rnd0 orderedState") auto
  have p: "0 < length (products orderedState)" and q: "0 < length (players orderedState)"
    by (simp_all add: orderedState_def handleOrderChange_def initialState_def)
  from nextTurn_inventory_nonneg[OF s' p q] s' show ?thesis by blast
qed

text \<open>
  C7, counterexample to the claim as stated (the inventory is an integer): the order of
  10 units arrives with reliability 0.95, and the inventory after the turn is
  \<open>50 + 9.5 - 19 = 40.5\<close>.
\<close>

theorem inventory_fraction_counterexample:
  "(case nextTurn Normal rnd0 orderedState of
      Inl e \<Rightarrow> False
    | Inr s' \<Rightarrow> inventory (products s' ! 0) ! 0 = 81 / 2)
   \<and> (81 / 2 :: real) \<notin> \<int>"
proof
  show "case nextTurn Normal rnd0 orderedState of
      Inl e \<Rightarrow> False
    | Inr s' \<Rightarrow> inventory (products s' ! 0) ! 0 = 81 / 2"
    by code_simp
  show "(81 / 2 :: real) \<notin> \<int>" by (rule half_not_int)
qed

subsection \<open>C8: the demand history\<close>

text \<open>
  C8 fails on the code. The demand is pushed inside the loop over the player slots
  (line 341), so a turn appends one entry per player: with two players both histories
  grow from no entry to two.
\<close>

theorem demandHistory_two_players:
  "map (\<lambda>p. length (demandHistory p)) (products twoPlayerState) = [0, 0]
   \<and> (case nextTurn Normal rnd0 twoPlayerState of
        Inl e \<Rightarrow> False
      | Inr s' \<Rightarrow> map demandHistory (products s') = [[19, 2495], [20, 2614]])"
  by code_simp

subsection \<open>C9: the global market tables\<close>

text \<open>
  C9, as amended. The market conversion is \<open>round (baseline * exchangeRate * transportCost)\<close>;
  both multipliers of the home country (USA) are 1; the transport costs of the other
  three countries are above 1 and pairwise distinct; their exchange rates are pairwise
  distinct, above 1 for Japan and China and below 1 for the EU.
\<close>

theorem simulateGlobalMarket_tables:
  "simulateGlobalMarket baselineDemand country
     = round (baselineDemand * exchangeRates country * transportCosts country)
   \<and> exchangeRates USA = 1 \<and> transportCosts USA = 1
   \<and> 1 < transportCosts Japan \<and> 1 < transportCosts EU \<and> 1 < transportCosts China
   \<and> distinct [transportCosts Japan, transportCosts EU, transportCosts China]
   \<and> 1 < exchangeRates Japan \<and> exchangeRates EU < 1 \<and> 1 < exchangeRates China
   \<and> distinct [exchangeRates Japan, exchangeRates EU, exchangeRates China]"
  by (simp add: simulateGlobalMarket_def)

text \<open>
  C9, counterexample to the claim as stated (both multipliers of every other country are
  above 1): the exchange rate of the EU is 0.9.
\<close>

theorem exchangeRate_EU_counterexample:
  "\<not> (1 < exchangeRates EU \<and> 1 < transportCosts EU)"
  by simp

subsection \<open>C10: settlement against the running budget\<close>

text \<open>
  C10. In the settlement pass of a turn, take a queue of two offers, the first from
  \<open>a\<close> to \<open>b\<close> and the second from \<open>b\<close> to \<open>c\<close>, where \<open>b\<close>'s budget before the pass
  is below the second amount but reaches it with the first amount. Then both offers are
  settled: the second one is tested against \<open>b\<close>'s running budget. With the same
  offers queued in the other order the second offer is dropped and \<open>c\<close> receives
  nothing.
\<close>

theorem settleTrades_running_budget:
  assumes "tradeOffers st = [o1, o2]"
    and "offer_from o1 = a" and "offer_to o1 = b" and "offer_from o2 = b" and "offer_to o2 = c"
    and "a < length (players st)" and "b < length (players st)" and "c < length (players st)"
    and "a \<noteq> b" and "b \<noteq> c" and "a \<noteq> c"
    and "amount o1 \<le> budget (players st ! a)"
    and "budget (players st ! b) < amount o2"
    and "amount o2 \<le> budget (players st ! b) + amount o1"
  shows "\<exists>s1 s2. settleTrades st = Inr s1 \<and> settleTrades (st\<lparr>tradeOffers := [o2, o1]\<rparr>) = Inr s2
      \<and> budget (players s1 ! a) = budget (players st ! a) - amount o1
      \<and> budget (players s1 ! b) = budget (players st ! b) + amount o1 - amount o2
      \<and> budget (players s1 ! c) = budget (players st ! c) + amount o2
      \<and> budget (players s2 ! a) = budget (players st ! a) - amount o1
      \<and> budget (players s2 ! b) = budget (players st ! b) + amount o1
      \<and> budget (players s2 ! c) = budget (players st ! c)"
  using assms
  by (simp add: settleTrades_def tradeStep_def Let_def nth_list_update)

text \<open>
  C10, witness: three players with the budgets 1000, 50 and 1000 and offers of 100 from 0
  to 1 and from 1 to 2; and two whole turns from states reached by decisions (three
  players, an R&D investment of 1950 by player 1, the two offers in either order), which
  end with different budgets.
\<close>

theorem settleTrades_running_budget_witness:
  "(\<exists>s1 s2. settleTrades chainSettleState = Inr s1
       \<and> settleTrades (chainSettleState\<lparr>tradeOffers := rev chainOffers\<rparr>) = Inr s2
       \<and> budget (players chainSettleState ! 1) = 50
       \<and> budget (players s1 ! 0) = 900 \<and> budget (players s1 ! 1) = 50 \<and> budget (players s1 ! 2) = 1100
       \<and> budget (players s2 ! 0) = 900 \<and> budget (players s2 ! 1) = 150 \<and> budget (players s2 ! 2) = 1000)
   \<and> (case nextTurn Normal rnd0 chainState of
        Inl e \<Rightarrow> False | Inr s' \<Rightarrow> map budget (players s') = [1562, 50, 1762])
   \<and> (case nextTurn Normal rnd0 chainStateReversed of
        Inl e \<Rightarrow> False | Inr s' \<Rightarrow> map budget (players s') = [1562, 150, 1662])"
proof -
  let ?o1 = "\<lparr>offer_from = 0, offer_to = 1, amount = 100\<rparr>"
  let ?o2 = "\<lparr>offer_from = 1, offer_to = 2, amount = 100\<rparr>"
  have q: "tradeOffers chainSettleState = [?o1, ?o2]"
    by (simp add: chainSettleState_def chainOffers_def)
  have r: "rev chainOffers = [?o2, ?o1]"
    by (simp add: chainOffers_def)
  have b: "budget (players chainSettleState ! 0) = 1000" "budget (players chainSettleState ! 1) = 50"
    "budget (players chainSettleState ! 2) = 1000" "length (players chainSettleState) = 3"
    "budget (players chainSettleState ! Suc 0) = 50"
    by (simp_all add: chainSettleState_def newPlayer_def)
  have "\<exists>s1 s2. settleTrades chainSettleState = Inr s1
      \<and> settleTrades (chainSettleState\<lparr>tradeOffers := [?o2, ?o1]\<rparr>) = Inr s2
      \<and> budget (players s1 ! 0) = budget (players chainSettleState ! 0) - amount ?o1
      \<and> budget (players s1 ! 1) = budget (players chainSettleState ! 1) + amount ?o1 - amount ?o2
      \<and> budget (players s1 ! 2) = budget (players chainSettleState ! 2) + amount ?o2
      \<and> budget (players s2 ! 0) = budget (players chainSettleState ! 0) - amount ?o1
      \<and> budget (players s2 ! 1) = budget (players chainSettleState ! 1) + amount ?o1
      \<and> budget (players s2 ! 2) = budget (players chainSettleState ! 2)"
    by (rule settleTrades_running_budget[OF q, of 0 1 2]) (simp_all add: b)
  then have "\<exists>s1 s2. settleTrades chainSettleState = Inr s1
       \<and> settleTrades (chainSettleState\<lparr>tradeOffers := rev chainOffers\<rparr>) = Inr s2
       \<and> budget (players chainSettleState ! 1) = 50
       \<and> budget (players s1 ! 0) = 900 \<and> budget (players s1 ! 1) = 50 \<and> budget (players s1 ! 2) = 1100
       \<and> budget (players s2 ! 0) = 900 \<and> budget (players s2 ! 1) = 150 \<and> budget (players s2 ! 2) = 1000"
    unfolding r b by simp
  then show ?thesis using nextTurn_chainStates by simp
qed

section \<open>Further properties of the turn\<close>

subsection \<open>A turn returns on every well-formed state\<close>

text \<open>
  From a state that satisfies the invariant of the data model, \<open>nextTurn\<close> throws
  nothing: it returns a state, in every game mode and for all random draws, and the
  returned state satisfies the invariant again.
\<close>

theorem nextTurn_total:
  assumes "wellFormed s"
  shows "\<exists>s'. nextTurn gameMode rnd s = Inr s' \<and> wellFormed s'"
proof -
  let ?s0 = "fst (startTurn rnd s)"
  have al0: "slotsAligned ?s0"
    using assms by (simp add: wellFormed_def slotsAligned_def startTurn_frame)
  have "\<forall>x \<in> set [0..<length (products ?s0)]. x < length (products ?s0)" by simp
  from productsLoop_total[OF al0 this, of gameMode rnd "snd (startTurn rnd s)"] obtain s3 k3 where
    pp: "processProducts gameMode rnd (startTurn rnd s) = Inr (s3, k3)" and al3: "slotsAligned s3"
    and len3: "length (players s3) = length (players s)" and tr3: "tradeOffers s3 = tradeOffers s"
    by (auto simp add: processProducts_def startTurn_frame)
  have offers: "\<forall>offer \<in> set (tradeOffers (applyInvestments s3)).
      offer_from offer < length (players (applyInvestments s3))
      \<and> offer_to offer < length (players (applyInvestments s3))"
    using assms tr3 len3 by (simp add: applyInvestments_frame wellFormed_def)
  from tradeLoop_total[OF offers] obtain s4 where
    loop: "forEach tradeStep (tradeOffers (applyInvestments s3)) (applyInvestments s3) = Inr s4"
    by blast
  let ?s' = "s4\<lparr>tradeOffers := []\<rparr>"
  have st: "settleTrades (applyInvestments s3) = Inr ?s'"
    by (simp add: settleTrades_def loop)
  have nt: "nextTurn gameMode rnd s = Inr ?s'"
    by (simp add: nextTurn_def pp st)
  have pr: "products ?s' = products s3"
    using settleTrades_frame(1)[OF st] by (simp add: applyInvestments_frame)
  have ln: "length (players ?s') = length (players s3)"
    using settleTrades_frame(3)[OF st] by (simp add: applyInvestments_frame)
  have "wellFormed ?s'"
    unfolding wellFormed_def
    using al3 pr ln by (auto simp add: slotsAligned_def)
  with nt show ?thesis by blast
qed

text \<open>Witness: two players and a queued trade offer, in hard mode.\<close>

theorem nextTurn_total_witness:
  "wellFormed tradeState \<and> (\<exists>s'. nextTurn Hard rnd0 tradeState = Inr s' \<and> wellFormed s')"
  using nextTurn_total[OF wellFormed_tradeState, of Hard rnd0] wellFormed_tradeState by simp

subsection \<open>The demand history grows by one entry per player slot\<close>

text \<open>
  A turn that returns appends to every product's demand history the demands realised
  for the player slots, one entry per slot in slot order, and leaves the earlier
  entries as they were.
\<close>

theorem nextTurn_demandHistory:
  assumes "nextTurn gm rnd s = Inr s'" and "pidx < length (products s)"
  shows "demandHistory (products s' ! pidx) =
     demandHistory (products s ! pidx) @ map (realizedDemand rnd s pidx) [0..<length (players s)]"
proof -
  let ?s0 = "fst (startTurn rnd s)"
  let ?sf = "seasonalFactors ?s0 (currentSeason ?s0)"
  let ?lf = "lifecycleFactorOf (products s ! pidx)"
  let ?ef = "environmentalFactorOf ?s0"
  let ?product = "products s ! pidx"
  from nextTurn_product[OF assms(1,2)] obtain supp k1 product2 where
    p2: "product2 = fst (lifecycleUpdate rnd (slotsProduct supp ?sf ?lf ?ef (length (players s)) ?product, k1 + length (players s)))"
    and ps': "products s' ! pidx = product2"
    by (elim exE conjE) (rule that, assumption+)
  have "realizedDemand rnd s pidx = spec_demand ?sf ?lf ?ef"
    by (rule ext) (rule realizedDemand_eq)
  then show ?thesis
    unfolding ps' p2 lifecycleUpdate_frame slotsProduct_demandHistory by simp
qed

text \<open>Witness: two players; the history of product 1 goes from empty to two entries.\<close>

theorem nextTurn_demandHistory_witness:
  "\<exists>s'. nextTurn Normal rnd0 twoPlayerState = Inr s'
     \<and> length (demandHistory (products s' ! 0)) = length (demandHistory (products twoPlayerState ! 0)) + 2
     \<and> demandHistory (products s' ! 0) = [19, 2495]"
proof -
  have "\<not> isl (nextTurn Normal rnd0 twoPlayerState)" by code_simp
  then obtain s' where s': "nextTurn Normal rnd0 twoPlayerState = Inr s'"
    by (cases "nextTurn Normal rnd0 twoPlayerState") auto
  have p: "0 < length (products twoPlayerState)"
    by (simp add: twoPlayerState_def setPlayerCount_def Let_def initialState_def)
  have d: "realizedDemand rnd0 twoPlayerState 0 0 = 19" "realizedDemand rnd0 twoPlayerState 0 (Suc 0) = 2495"
    by (simp_all add: realizedDemand_def startTurn_def simulateEnvironmentalEvent_def rnd0_def
        twoPlayerState_def setPlayerCount_def initialState_def initialSeasonalFactors_def
        lifecycleFactorOf_def environmentalFactorOf_def spec_demand_def simulateGlobalMarket_def round_def Let_def)
  have v: "demandHistory (products twoPlayerState ! 0) = []" "length (players twoPlayerState) = 2"
    by (simp_all add: twoPlayerState_def setPlayerCount_def Let_def initialState_def)
  have u: "[0..<2] = [0, Suc 0]" by (simp add: upt_rec)
  have h: "demandHistory (products s' ! 0) = [19, 2495]"
    using nextTurn_demandHistory[OF s' p] unfolding v u by (simp add: d)
  show ?thesis
    by (rule exI[of _ s'], intro conjI) (simp_all add: s' h v)
qed

subsection \<open>The ceiling of the budget, where it holds\<close>

text \<open>
  After a turn that returns, from a state with at least one product, an empty trade
  queue and no negative pending investment total, every budget is at most 2000.
\<close>

theorem nextTurn_budget_ceiling:
  assumes "nextTurn gameMode rnd s = Inr s'" and "products s \<noteq> []" and "tradeOffers s = []"
    and "\<forall>p \<in> set (players s). 0 \<le> rdInvestment p + facilityInvestment p"
    and "i < length (players s)"
  shows "budget (players s' ! i) \<le> 2000"
proof -
  let ?n = "length (products s)"
  from nextTurn_Inr_D[OF assms(1)] obtain s3 k3 where
    pp: "processProducts gameMode rnd (startTurn rnd s) = Inr (s3, k3)"
    and st: "settleTrades (applyInvestments s3) = Inr s'"
    by blast
  note fr = processProducts_frame[OF pp]
  obtain m where m: "?n = Suc m" using assms(2) by (cases "products s") auto
  have "forEach (productStep gameMode rnd) ([0..<m] @ [m]) (startTurn rnd s) = Inr (s3, k3)"
    using pp by (simp add: processProducts_def startTurn_frame m)
  then obtain st1 where last: "productStep gameMode rnd m st1 = Inr (s3, k3)"
    unfolding forEach_snoc_Inr by blast
  obtain s1 k1 where st1: "st1 = (s1, k1)" by (cases st1) auto
  from productStep_Inr_D[OF last[unfolded st1]] obtain supp aiOrder product2 where
    s3: "s3 = s1\<lparr>products := (products s1)[m := product2],
              players := slotsPlayers supp (seasonalFactors s1 (currentSeason s1)) (lifecycleFactorOf (products s1 ! m))
                 (environmentalFactorOf s1) rnd k1 (products s1 ! m) (players s1),
              aiScore := aiScore s1 + aiNet (inventory product2 ! 0) (last (demandHistory product2)) aiOrder\<rparr>"
    by (elim exE conjE) (rule that, assumption+)
  have i3: "i < length (players s3)" using assms(5) fr(2) by simp
  have i1: "i < length (players s1)" using i3 unfolding s3 by (simp add: slotsPlayers_length)
  have b3: "budget (players s3 ! i) \<le> 2000"
    unfolding s3 using i1 by (simp add: slotsPlayers_nth spec_ledger_budget)
  have rd: "rdInvestment (players s3 ! i) = rdInvestment (players s ! i)"
    using arg_cong[OF fr(3), of "\<lambda>xs. xs ! i"] i3 assms(5) by simp
  have fac: "facilityInvestment (players s3 ! i) = facilityInvestment (players s ! i)"
    using arg_cong[OF fr(4), of "\<lambda>xs. xs ! i"] i3 assms(5) by simp
  have nn: "0 \<le> rdInvestment (players s ! i) + facilityInvestment (players s ! i)"
    using assms(4,5) by simp
  have b4: "budget (players (applyInvestments s3) ! i) \<le> 2000"
    using i3 b3 nn rd fac by (simp add: applyInvestments_def)
  have q: "tradeOffers (applyInvestments s3) = []"
    using fr(1) assms(3) by (simp add: applyInvestments_frame)
  have "map budget (players s') = spec_settle [] (map budget (players (applyInvestments s3)))"
    using settleTrades_Inr_D(1)[OF st] unfolding q .
  then have "map budget (players s') ! i = map budget (players (applyInvestments s3)) ! i"
    by simp
  moreover have "length (players s') = length (players (applyInvestments s3))"
    by (rule budgetsOnly_length[OF settleTrades_Inr_D(2)[OF st]])
  ultimately have "budget (players s' ! i) = budget (players (applyInvestments s3) ! i)"
    using i3 by (simp add: applyInvestments_frame)
  then show ?thesis using b4 by simp
qed

text \<open>Witness: two players, no offer and no investment.\<close>

theorem nextTurn_budget_ceiling_witness:
  "\<exists>s'. nextTurn Normal rnd0 twoPlayerState = Inr s' \<and> budget (players s' ! 1) \<le> 2000"
proof -
  have "\<not> isl (nextTurn Normal rnd0 twoPlayerState)" by code_simp
  then obtain s' where s': "nextTurn Normal rnd0 twoPlayerState = Inr s'"
    by (cases "nextTurn Normal rnd0 twoPlayerState") auto
  have h: "products twoPlayerState \<noteq> []" "tradeOffers twoPlayerState = []"
    "\<forall>p \<in> set (players twoPlayerState). 0 \<le> rdInvestment p + facilityInvestment p"
    "1 < length (players twoPlayerState)"
    by (simp_all add: twoPlayerState_def setPlayerCount_def Let_def initialState_def newPlayer_def)
  from nextTurn_budget_ceiling[OF s' h] s' show ?thesis by blast
qed

subsection \<open>Trade settlement\<close>

text \<open>
  From a state that satisfies the invariant of the data model the turn returns; the
  returned queue is empty, the returned budgets are the budgets after the ledger steps
  and the investments settled offer by offer in queue order, an offer that the payer's
  budget at that point does not cover changing nothing, and settlement changes no
  other field of a player.
\<close>

theorem nextTurn_settlement:
  assumes "wellFormed s"
  shows "\<exists>s3 k3 s'.
      processProducts gameMode rnd (startTurn rnd s) = Inr (s3, k3)
    \<and> nextTurn gameMode rnd s = Inr s'
    \<and> tradeOffers s' = []
    \<and> map budget (players s')
         = spec_settle (tradeOffers s)
             (map (\<lambda>p. budget p - (rdInvestment p + facilityInvestment p)) (players s3))
    \<and> budgetsOnly (players (applyInvestments s3)) (players s')"
proof -
  have al: "slotsAligned s" using assms by (simp add: wellFormed_def slotsAligned_def)
  from productsPhase[OF al, of gameMode rnd] obtain s3 k3 where
    pp: "processProducts gameMode rnd (startTurn rnd s) = Inr (s3, k3)"
    and nt: "nextTurn gameMode rnd s = settleTrades (applyInvestments s3)"
    and len: "length (players s3) = length (players s)" and tr: "tradeOffers s3 = tradeOffers s"
    by (elim exE conjE) (rule that, assumption+)
  have offers: "\<forall>offer \<in> set (tradeOffers s3).
      offer_from offer < length (players s3) \<and> offer_to offer < length (players s3)"
    using assms unfolding tr len by (simp add: wellFormed_def)
  from settleInvested_total[OF offers] obtain s' where st: "settleTrades (applyInvestments s3) = Inr s'"
    by blast
  have r: "nextTurn gameMode rnd s = Inr s'" unfolding nt by (rule st)
  note d = settleInvested_Inr_D[OF st, unfolded tr]
  note b = settleTrades_Inr_D(2)[OF st]
  show ?thesis
    by (rule exI[of _ s3], rule exI[of _ k3], rule exI[of _ s'], intro conjI) (fact pp r d(3) d(8) b)+
qed

text \<open>
  Witness: two players, player 0 has ordered 200 units and offers 100 to player 1; the
  budgets after the ledger steps are -538 and 2000, and the offer is dropped.
\<close>

theorem nextTurn_settlement_witness:
  "wellFormed droppedOfferState
   \<and> tradeOffers droppedOfferState = [\<lparr>offer_from = 0, offer_to = 1, amount = 100\<rparr>]
   \<and> (\<exists>s'. nextTurn Normal rnd0 droppedOfferState = Inr s' \<and> tradeOffers s' = []
          \<and> map budget (players s') = [- 538, 2000])"
proof -
  from nextTurn_settlement[OF wellFormed_droppedOfferState, of Normal rnd0] obtain s' where
    s': "nextTurn Normal rnd0 droppedOfferState = Inr s'" and e: "tradeOffers s' = []"
    by (elim exE conjE) (rule that, assumption+)
  have b: "map budget (players s') = [- 538, 2000]"
    using nextTurn_droppedOfferState unfolding s' by simp
  have q: "tradeOffers droppedOfferState = [\<lparr>offer_from = 0, offer_to = 1, amount = 100\<rparr>]"
    by (simp add: droppedOfferState_def handleTradeOffer_def handleOrderChange_def
        setPlayerCount_def Let_def initialState_def)
  show ?thesis
    by (intro conjI exI[of _ s']) (fact wellFormed_droppedOfferState q s' e b)+
qed


text \<open>
  Let a turn started from \<open>s\<close> return \<open>s'\<close>, and let \<open>s3\<close> be the state after the
  loop over the products. The budgets of \<open>s'\<close> are the budgets after the investments
  of \<open>s3\<close> settled offer by offer in queue order: an offer whose amount the payer's
  budget covers moves exactly the amount from the payer to the recipient, any other
  offer changes nothing. Settlement changes no other field of a player and keeps the sum
  of the budgets; a new offer is queued behind the earlier ones; and the queue of
  \<open>s'\<close> is empty.
\<close>

theorem nextTurn_trade_settlement:
  assumes "nextTurn gameMode rnd s = Inr s'"
  shows "\<exists>s3 k3. processProducts gameMode rnd (startTurn rnd s) = Inr (s3, k3)
    \<and> settleTrades (applyInvestments s3) = Inr s'
    \<and> map budget (players s') = spec_settle (tradeOffers s) (map budget (players (applyInvestments s3)))
    \<and> budgetsOnly (players (applyInvestments s3)) (players s')
    \<and> sum_list (map budget (players s')) = sum_list (map budget (players (applyInvestments s3)))
    \<and> (\<forall>offer \<in> set (tradeOffers s). offer_from offer < length (players s))
    \<and> tradeOffers s' = []
    \<and> (\<forall>from0 to0. tradeOffers (handleTradeOffer from0 to0 s)
          = tradeOffers s @ [\<lparr>offer_from = from0, offer_to = to0, amount = 100\<rparr>])
    \<and> (\<forall>offer st st'. tradeStep offer st = Inr st' \<longrightarrow>
          (amount offer \<le> budget (players st ! offer_from offer) \<longrightarrow> offer_from offer \<noteq> offer_to offer \<longrightarrow>
            budget (players st' ! offer_from offer) = budget (players st ! offer_from offer) - amount offer
            \<and> budget (players st' ! offer_to offer) = budget (players st ! offer_to offer) + amount offer)
          \<and> (\<forall>j. j \<noteq> offer_from offer \<longrightarrow> j \<noteq> offer_to offer \<longrightarrow> players st' ! j = players st ! j)
          \<and> (\<not> amount offer \<le> budget (players st ! offer_from offer) \<longrightarrow> players st' = players st))"
proof -
  from nextTurn_Inr_D[OF assms] obtain s3 k3 where
    pp: "processProducts gameMode rnd (startTurn rnd s) = Inr (s3, k3)"
    and st: "settleTrades (applyInvestments s3) = Inr s'"
    by blast
  note fr = processProducts_frame[OF pp]
  have q: "tradeOffers (applyInvestments s3) = tradeOffers s"
    using fr(1) by (simp add: applyInvestments_frame)
  have n: "length (players (applyInvestments s3)) = length (players s)"
    using fr(2) by (simp add: applyInvestments_frame)
  note d = settleTrades_Inr_D[OF st, unfolded q n]
  have e: "tradeOffers s' = []" by (rule settleTrades_frame(4)[OF st])
  have h: "\<forall>from0 to0. tradeOffers (handleTradeOffer from0 to0 s)
          = tradeOffers s @ [\<lparr>offer_from = from0, offer_to = to0, amount = 100\<rparr>]"
    by (simp add: handleTradeOffer_def)
  have t: "\<forall>offer st st'. tradeStep offer st = Inr st' \<longrightarrow>
          (amount offer \<le> budget (players st ! offer_from offer) \<longrightarrow> offer_from offer \<noteq> offer_to offer \<longrightarrow>
            budget (players st' ! offer_from offer) = budget (players st ! offer_from offer) - amount offer
            \<and> budget (players st' ! offer_to offer) = budget (players st ! offer_to offer) + amount offer)
          \<and> (\<forall>j. j \<noteq> offer_from offer \<longrightarrow> j \<noteq> offer_to offer \<longrightarrow> players st' ! j = players st ! j)
          \<and> (\<not> amount offer \<le> budget (players st ! offer_from offer) \<longrightarrow> players st' = players st)"
    by (intro allI impI) (rule tradeStep_offer)
  show ?thesis
    by (rule exI[of _ s3], rule exI[of _ k3], intro conjI) (fact pp st d e h t)+
qed

text \<open>Witness: two players and one offer of 100 from player 0 to player 1.\<close>

theorem nextTurn_trade_settlement_witness:
  "\<exists>s'. nextTurn Normal rnd0 tradeState = Inr s' \<and> tradeOffers tradeState \<noteq> [] \<and> tradeOffers s' = []
      \<and> map budget (players s') = [1562, 2100]"
proof -
  obtain s' where s': "nextTurn Normal rnd0 tradeState = Inr s'"
    using nextTurn_tradeState by (cases "nextTurn Normal rnd0 tradeState") auto
  have a: "tradeOffers s' = []"
    using nextTurn_trade_settlement[OF s'] by (elim exE conjE)
  have b: "map budget (players s') = [1562, 2100]"
    using nextTurn_tradeState_budgets unfolding s' by simp
  have c: "tradeOffers tradeState \<noteq> []"
    by (simp add: tradeState_def handleTradeOffer_def)
  show ?thesis
    by (rule exI[of _ s'], intro conjI) (fact s' a b c)+
qed

subsection \<open>The ledger contract in exact arithmetic\<close>

text \<open>
  With exact numbers: in every state reached from the initial state by decisions (orders,
  investments, supplier choices, trade offers, changes of the player count) and turns
  that return, in any game mode and with any random draws, every player's score is
  \<open>revenue - holdingCost - stockoutPenalty - orderCost\<close> of the accumulators, and the
  expenses are \<open>holdingCost + stockoutPenalty + orderCost\<close> plus the R&D and facility
  investments applied to the player so far. The source adds the same amounts in binary
  floating point, where every addition rounds: there the two sides of an equation can
  differ in the last digits.
\<close>

theorem reachable_ledger:
  assumes "reachable s applied" and "i < length (players s)"
  shows "length applied = length (players s)
    \<and> score (players s ! i)
        = revenue (players s ! i) - holdingCost (players s ! i) - stockoutPenalty (players s ! i)
          - orderCost (players s ! i)
    \<and> expenses (players s ! i)
        = holdingCost (players s ! i) + stockoutPenalty (players s ! i) + orderCost (players s ! i)
          + applied ! i"
  using reachable_ledgerInvariant[OF assms(1)] assms(2)
  by (simp add: ledgerInvariant_def ledgerScore_def ledgerOperatingCost_def)

text \<open>Witness: the first turn after an R&D investment of 100 by player 0.\<close>

theorem reachable_ledger_witness:
  "\<exists>s'. nextTurn Normal rnd0 investedState = Inr s' \<and> reachable s' [100]
     \<and> score (players s' ! 0)
        = revenue (players s' ! 0) - holdingCost (players s' ! 0) - stockoutPenalty (players s' ! 0)
          - orderCost (players s' ! 0)
     \<and> expenses (players s' ! 0)
        = holdingCost (players s' ! 0) + stockoutPenalty (players s' ! 0) + orderCost (players s' ! 0) + 100"
proof -
  obtain s' where s': "nextTurn Normal rnd0 investedState = Inr s'"
    using nextTurn_investedState by (cases "nextTurn Normal rnd0 investedState") auto
  have r0: "reachable investedState [0]"
    unfolding investedState_def by (rule reachable.investmentChange[OF reachable.initial])
  have g: "map2 (\<lambda>p x. x + (rdInvestment p + facilityInvestment p)) (players investedState) [0] = [100]"
    by (simp add: investedState_def handleInvestmentChange_def initialState_def newPlayer_def)
  have r: "reachable s' [100]"
    using reachable.turn[OF r0 s'] unfolding g .
  have n: "length (players s') = 1"
    using nextTurn_length[OF s']
    by (simp add: investedState_def handleInvestmentChange_def initialState_def)
  have i: "0 < length (players s')" using n by simp
  from reachable_ledger[OF r i] have
    "score (players s' ! 0)
        = revenue (players s' ! 0) - holdingCost (players s' ! 0) - stockoutPenalty (players s' ! 0)
          - orderCost (players s' ! 0)
     \<and> expenses (players s' ! 0)
        = holdingCost (players s' ! 0) + stockoutPenalty (players s' ! 0) + orderCost (players s' ! 0) + 100"
    by simp
  then show ?thesis
    by (intro exI[of _ s'] conjI) (use s' r in simp_all)
qed

subsection \<open>The order of the AI policy as a formula\<close>

text \<open>
  \<open>aiStrategy\<close> fails with \<open>NotFound\<close> exactly when no product has the given
  identity. When the product is found and slot 0 exists (a player and an inventory
  entry), it returns the rounded order
  \<open>min (max 0 (forecast * (1 + 0.2 * difficulty) - inventory[0])) capacity[0] \<lfloor>budget[0] / 10\<rfloor>\<close>,
  with \<open>forecast\<close> the mean of the demand history (0 for an empty one) times the
  seasonal factor times \<open>1 + growth - decline\<close>. The order is non-negative when slot
  0's production capacity and budget are.
\<close>

theorem aiStrategy_result:
  "(aiStrategy gameState productId d = Inl NotFound \<longleftrightarrow> productId \<notin> product_id ` set (products gameState))
   \<and> (\<forall>product. find (\<lambda>p. product_id p = productId) (products gameState) = Some product
         \<and> players gameState \<noteq> [] \<and> inventory product \<noteq> []
        \<longrightarrow> aiStrategy gameState productId d = Inr (spec_aiOrder gameState product d)
            \<and> (0 \<le> productionCapacity (players gameState ! 0) \<and> 0 \<le> budget (players gameState ! 0)
                 \<longrightarrow> 0 \<le> spec_aiOrder gameState product d))"
proof (intro conjI allI impI)
  show "aiStrategy gameState productId d = Inl NotFound \<longleftrightarrow> productId \<notin> product_id ` set (products gameState)"
    unfolding find_None_product_id[symmetric]
    by (auto simp add: aiStrategy_def Let_def split: option.splits list.splits)
qed (auto simp add: aiStrategy_found spec_aiOrder_nonneg)

text \<open>Witness: the initial state, an existing and a missing product.\<close>

theorem aiStrategy_result_witness:
  "aiStrategy initialState 1 1 = Inr 0 \<and> aiStrategy initialState 3 1 = Inl NotFound
   \<and> spec_aiOrder initialState (products initialState ! 0) 1 = 0"
proof -
  have f: "find (\<lambda>p. product_id p = 1) (products initialState) = Some (products initialState ! 0)"
    by (simp add: initialState_def)
  have n: "players initialState \<noteq> []" "inventory (products initialState ! 0) \<noteq> []"
    by (simp_all add: initialState_def)
  have b: "0 \<le> productionCapacity (players initialState ! 0) \<and> 0 \<le> budget (players initialState ! 0)"
    by (simp add: initialState_def newPlayer_def)
  have "(3::int) \<notin> product_id ` set (products initialState)"
    by (simp add: initialState_def)
  moreover have "0 \<le> spec_aiOrder initialState (products initialState ! 0) 1"
    using aiStrategy_result[of initialState 1 1] f n b by blast
  moreover have "spec_aiOrder initialState (products initialState ! 0) 1 \<le> 0"
    by (simp add: spec_aiOrder_def spec_forecast_def spec_mean_def initialState_def newPlayer_def)
  moreover have "aiStrategy initialState 1 1 = Inr (spec_aiOrder initialState (products initialState ! 0) 1)"
    using aiStrategy_result[of initialState 1 1] f n by blast
  ultimately show ?thesis
    using aiStrategy_result[of initialState 3 1] by simp
qed

end
